theory Spec2Isabelle
  imports Main "HOL-Library.AList"
begin

section \<open>Values\<close>

text \<open>
  The store holds JSON-shaped JavaScript values. \<open>undefined\<close> is a value of its own in
  JavaScript and the write pipeline tests for it (\<open>value === undefined\<close>), so it is a
  constructor here. An object is its list of entries in insertion order.
\<close>

type_synonym key = string

datatype json =
    JUndefined
  | JNull
  | JBool bool
  | JNum int
  | JStr string
  | JArr "json list"
  | JObj "(string \<times> json) list"

text \<open>JavaScript truthiness, as tested by \<open>!existingValue\<close> and \<open>if (collectionKey)\<close>.\<close>

fun truthy :: "json \<Rightarrow> bool" where
  "truthy JUndefined = False"
| "truthy JNull = False"
| "truthy (JBool b) = b"
| "truthy (JNum n) = (n \<noteq> 0)"
| "truthy (JStr s) = (s \<noteq> [])"
| "truthy (JArr xs) = True"
| "truthy (JObj kvs) = True"

text \<open>\<open>a ?? b\<close>.\<close>

definition nullish :: "json \<Rightarrow> bool" where
  "nullish v = (v = JUndefined \<or> v = JNull)"

definition coalesce :: "json \<Rightarrow> json \<Rightarrow> json" where
  "coalesce a b = (if nullish a then b else a)"

text \<open>\<open>obj[key]\<close>: the value of a property, \<open>undefined\<close> when the object has none.\<close>

definition lookup :: "(key \<times> json) list \<Rightarrow> key \<Rightarrow> json" where
  "lookup kvs k = (case map_of kvs k of None \<Rightarrow> JUndefined | Some v \<Rightarrow> v)"

text \<open>
  \<open>Object.entries\<close> of a value that is not nullish: the entries of an object, the indexed
  elements of an array, the indexed characters of a string, nothing for a number or a boolean.
\<close>

fun decimal :: "nat \<Rightarrow> string" where
  "decimal n = (if n < 10 then [''0123456789'' ! n] else decimal (n div 10) @ [''0123456789'' ! (n mod 10)])"

definition indexed :: "json list \<Rightarrow> (key \<times> json) list" where
  "indexed xs = zip (map decimal [0..<length xs]) xs"

fun objectEntries :: "json \<Rightarrow> (key \<times> json) list" where
  "objectEntries (JObj kvs) = kvs"
| "objectEntries (JArr xs) = indexed xs"
| "objectEntries (JStr cs) = indexed (map (\<lambda>c. JStr [c]) cs)"
| "objectEntries v = []"

fun startsWith :: "string \<Rightarrow> string \<Rightarrow> bool" where
  "startsWith s [] = True"
| "startsWith [] (c # cs) = False"
| "startsWith (x # xs) (c # cs) = (x = c \<and> startsWith xs cs)"

section \<open>The compatibility checker\<close>

text \<open>
  Modelled from the spec: the types that the checker of Section 4.1 tells apart, which
  \<open>Onyx.ts\<close> does not declare: undefined, null, array, object and scalar.
\<close>

datatype value_type = TUndefined | TNull | TArray | TObject | TScalar

text \<open>Modelled from the spec: the type of a value, for the checker of Section 4.1.\<close>

fun valueType :: "json \<Rightarrow> value_type" where
  "valueType JUndefined = TUndefined"
| "valueType JNull = TNull"
| "valueType (JArr xs) = TArray"
| "valueType (JObj kvs) = TObject"
| "valueType v = TScalar"

text \<open>
  Modelled from the spec: \<open>utils.checkCompatibilityWithExistingValue\<close>, which is not in
  \<open>Onyx.ts\<close>. Section 4.1: a new value is compatible with the existing one iff either
  operand is undefined or null, or both are arrays, or both are non-array objects.
\<close>

definition isCompatible :: "json \<Rightarrow> json \<Rightarrow> bool" where
  "isCompatible newValue existingValue =
     (nullish newValue \<or> nullish existingValue
      \<or> (valueType newValue = TArray \<and> valueType existingValue = TArray)
      \<or> (valueType newValue = TObject \<and> valueType existingValue = TObject))"

section \<open>The merge primitive\<close>

text \<open>
  Modelled from the spec: the deep merge of one delta into a value, which \<open>applyMerge\<close>
  folds and which is not in \<open>Onyx.ts\<close>. Section 4.2: a \<open>null\<close> delta makes the
  accumulator \<open>null\<close>; an object delta merged into an object overwrites or recurses key by
  key, and replaces anything else wholesale; a nested \<open>null\<close> deletes the field when
  \<open>stripNulls\<close> is set and is kept as a marker otherwise; arrays and scalars replace.
  Section 3: \<open>undefined\<close> is never propagated, so an \<open>undefined\<close> delta or field leaves
  the accumulator as it is.
\<close>

fun fastMerge :: "bool \<Rightarrow> json \<Rightarrow> json \<Rightarrow> json"
  and mergeObject :: "bool \<Rightarrow> (string \<times> json) list \<Rightarrow> (string \<times> json) list \<Rightarrow> (string \<times> json) list"
where
  "fastMerge strip target (JObj sf) =
     JObj (mergeObject strip (case target of JObj tf \<Rightarrow> tf | _ \<Rightarrow> []) sf)"
| "fastMerge strip target JUndefined = target"
| "fastMerge strip target source = source"
| "mergeObject strip tf [] = tf"
| "mergeObject strip tf ((k, v) # rest) =
     mergeObject strip
       (if v = JUndefined then tf
        else if v = JNull then (if strip then AList.delete k tf else AList.update k JNull tf)
        else AList.update k (fastMerge strip (lookup tf k) v) tf)
       rest"

text \<open>
  Modelled from the spec: \<open>OnyxUtils.applyMerge\<close>, which is not in \<open>Onyx.ts\<close>.
  Section 4.2: the deltas are folded left to right over the base.
\<close>

definition applyMerge :: "json \<Rightarrow> json list \<Rightarrow> bool \<Rightarrow> json" where
  "applyMerge existingValue changes shouldRemoveNestedNulls =
     foldl (fastMerge shouldRemoveNestedNulls) existingValue changes"

text \<open>
  Modelled from the spec: the nested-null normalisation of \<open>removeNullValues\<close>
  (Section 4.4 step 6), as the strip-null merge of a value into nothing.
\<close>

definition removeNestedNullValues :: "json \<Rightarrow> json" where
  "removeNestedNullValues v = fastMerge True JUndefined v"

section \<open>The store\<close>

text \<open>
  What the collaborators are asked to do is recorded in a trace, in the order of the calls:
  the storage driver's calls, the subscriber registry's calls and the logger's. The DevTools
  tap and the performance decorators are left out.
\<close>

datatype event =
    StorageGetItem key
  | StorageSetItem key json
  | StorageMultiSet "(key \<times> json) list"
  | StorageMergeItem key json json bool
  | StorageMultiMerge "(key \<times> json) list"
  | StorageRemoveItem key
  | StorageRemoveItems "key list"
  | BroadcastUpdate key json bool
  | SubscriberUpdate key json json
  | NotifyCollectionSubscribers key "(key \<times> json) list" json
  | RefreshSessionID
  | LogAlert string key
  | LogInfo string

record store =
  cache :: "(key \<times> json) list"
  nullishStorageKeys :: "key list"
  storage :: "(key \<times> json) list"
  mergeQueue :: "(key \<times> json list) list"
  mergeQueuePromise :: "key list"
  trace :: "event list"

text \<open>The options of \<open>init\<close> that the write pipeline reads.\<close>

record config =
  collectionKeys :: "key list"
  defaultKeyStates :: "(key \<times> json) list"
  skippableCollectionMemberIDs :: "string list"

definition emit :: "event \<Rightarrow> store \<Rightarrow> store" where
  "emit e s = s\<lparr>trace := trace s @ [e]\<rparr>"

subsection \<open>Cache\<close>

text \<open>
  The cache (\<open>OnyxCache\<close>) is not in \<open>Onyx.ts\<close>. Section 3 of the spec gives it as a
  mapping from key to value in which \<open>null\<close> is representable, with a nullish-key set; its
  recency list and its pending-task map are left out.
\<close>

text \<open>Modelled from the spec: \<open>cache.get\<close>, the cached value, \<open>undefined\<close> when there is none.\<close>

definition cache_get :: "store \<Rightarrow> key \<Rightarrow> json" where
  "cache_get s k = lookup (cache s) k"

text \<open>
  Modelled from the spec: \<open>cache.set\<close>. Section 3: a key is present in the cache iff its last
  write had a value other than \<open>undefined\<close>, and \<open>null\<close> is representable.
\<close>

definition cache_set :: "key \<Rightarrow> json \<Rightarrow> store \<Rightarrow> store" where
  "cache_set k v s =
     (if v = JUndefined then s\<lparr>cache := AList.delete k (cache s)\<rparr>
      else s\<lparr>cache := AList.update k v (cache s)\<rparr>)"

text \<open>Modelled from the spec: \<open>cache.drop\<close>, which removes the key from the cache.\<close>

definition cache_drop :: "key \<Rightarrow> store \<Rightarrow> store" where
  "cache_drop k s = s\<lparr>cache := AList.delete k (cache s)\<rparr>"

text \<open>
  Modelled from the spec: \<open>cache.hasValueChanged\<close>. Section 3: true iff the value differs
  structurally from the cached one, or the key is uncached.
\<close>

definition hasValueChanged :: "store \<Rightarrow> key \<Rightarrow> json \<Rightarrow> bool" where
  "hasValueChanged s k v = (case map_of (cache s) k of None \<Rightarrow> True | Some c \<Rightarrow> v \<noteq> c)"

text \<open>
  Modelled from the spec: \<open>cache.clearNullishStorageKeys\<close>, which empties the set of the
  keys known to be absent from storage (Section 3).
\<close>

definition clearNullishStorageKeys :: "store \<Rightarrow> store" where
  "clearNullishStorageKeys s = s\<lparr>nullishStorageKeys := []\<rparr>"

subsection \<open>Storage driver\<close>

text \<open>
  The storage driver (\<open>Storage\<close>) is not in \<open>Onyx.ts\<close>. Section 6 of the spec gives its
  calls. Here it is an in-memory map whose calls take effect when they are issued and
  succeed; so the \<open>catch\<close> branches of \<open>Onyx.ts\<close> that evict and retry after a storage
  failure have no counterpart.
\<close>

text \<open>Modelled from the spec: \<open>Storage.getItem\<close>, the stored value of a key.\<close>

definition storage_get :: "store \<Rightarrow> key \<Rightarrow> json" where
  "storage_get s k = lookup (storage s) k"

text \<open>
  Modelled from the spec: the write of one value by the driver. Section 3: a top-level
  \<open>null\<close> means absent, so writing a nullish value deletes the key.
\<close>

definition storage_put :: "key \<Rightarrow> json \<Rightarrow> (key \<times> json) list \<Rightarrow> (key \<times> json) list" where
  "storage_put k v st = (if nullish v then AList.delete k st else AList.update k v st)"

text \<open>Modelled from the spec: \<open>Storage.setItem\<close> (Section 6).\<close>

definition Storage_setItem :: "key \<Rightarrow> json \<Rightarrow> store \<Rightarrow> store" where
  "Storage_setItem k v s = emit (StorageSetItem k v) (s\<lparr>storage := storage_put k v (storage s)\<rparr>)"

text \<open>Modelled from the spec: \<open>Storage.multiSet\<close> (Section 6), the pairs written in order.\<close>

definition Storage_multiSet :: "(key \<times> json) list \<Rightarrow> store \<Rightarrow> store" where
  "Storage_multiSet pairs s =
     emit (StorageMultiSet pairs)
       (s\<lparr>storage := foldl (\<lambda>st (k, v). storage_put k v st) (storage s) pairs\<rparr>)"

text \<open>
  Modelled from the spec: \<open>Storage.mergeItem\<close>. Section 6: the driver chooses the delta or
  the pre-merged value; here it stores the pre-merged value.
\<close>

definition Storage_mergeItem :: "key \<Rightarrow> json \<Rightarrow> json \<Rightarrow> bool \<Rightarrow> store \<Rightarrow> store" where
  "Storage_mergeItem k delta preMerged shouldSetValue s =
     emit (StorageMergeItem k delta preMerged shouldSetValue)
       (s\<lparr>storage := storage_put k preMerged (storage s)\<rparr>)"

text \<open>
  Modelled from the spec: \<open>Storage.multiMerge\<close> (Section 6), each delta merged into the
  stored value, a nested \<open>null\<close> deleting the field (Section 4.6 step 5).
\<close>

definition Storage_multiMerge :: "(key \<times> json) list \<Rightarrow> store \<Rightarrow> store" where
  "Storage_multiMerge pairs s =
     emit (StorageMultiMerge pairs)
       (s\<lparr>storage := foldl (\<lambda>st (k, v). storage_put k (fastMerge True (lookup st k) v) st)
                        (storage s) pairs\<rparr>)"

text \<open>Modelled from the spec: the removal of one key by the driver (Section 4.3 step 8).\<close>

definition Storage_removeItem :: "key \<Rightarrow> store \<Rightarrow> store" where
  "Storage_removeItem k s = emit (StorageRemoveItem k) (s\<lparr>storage := AList.delete k (storage s)\<rparr>)"

text \<open>Modelled from the spec: \<open>Storage.removeItems\<close> (Section 6).\<close>

definition Storage_removeItems :: "key list \<Rightarrow> store \<Rightarrow> store" where
  "Storage_removeItems ks s =
     emit (StorageRemoveItems ks)
       (s\<lparr>storage := foldl (\<lambda>st k. AList.delete k st) (storage s) ks\<rparr>)"

subsection \<open>Keys and collections\<close>

text \<open>
  The key helpers of \<open>OnyxUtils\<close> are not in \<open>Onyx.ts\<close>. A helper that throws in the
  source returns \<open>None\<close> here.
\<close>

text \<open>
  Modelled from the spec: \<open>OnyxUtils.isKeyMatch\<close> for a collection key. Section 3: any key
  starting with the declared prefix is a member of the collection.
\<close>

definition isKeyMatch :: "key \<Rightarrow> key \<Rightarrow> bool" where
  "isKeyMatch collectionKey k = startsWith k collectionKey"

text \<open>
  Modelled from the spec: membership of a key in a given collection. Section 4.6 step 1: the
  key shares the prefix and has a non-empty member id.
\<close>

definition isCollectionMemberKey :: "key \<Rightarrow> key \<Rightarrow> bool" where
  "isCollectionMemberKey collectionKey k = (startsWith k collectionKey \<and> length collectionKey < length k)"

text \<open>
  Modelled from the spec: \<open>OnyxUtils.doAllCollectionItemsBelongToSameParent\<close>. Section 4.6
  step 1: every key belongs to the collection key.
\<close>

definition doAllCollectionItemsBelongToSameParent :: "key \<Rightarrow> key list \<Rightarrow> bool" where
  "doAllCollectionItemsBelongToSameParent collectionKey ks = list_all (isCollectionMemberKey collectionKey) ks"

text \<open>
  Modelled from the spec: \<open>OnyxUtils.getCollectionKey\<close>. Section 3: the collection of a key
  is determined by the declared prefixes; where several fit, the longest is taken. Without a
  fitting prefix the source throws.
\<close>

definition getCollectionKey :: "config \<Rightarrow> key \<Rightarrow> key option" where
  "getCollectionKey cfg k =
     (case filter (\<lambda>p. startsWith k p) (collectionKeys cfg) of
        [] \<Rightarrow> None
      | p # ps \<Rightarrow> Some (foldl (\<lambda>a b. if length a < length b then b else a) p ps))"

text \<open>
  Modelled from the spec: \<open>OnyxUtils.splitCollectionMemberKey\<close> called with the key only.
  Section 3: the member id is the suffix after the collection key.
\<close>

definition splitCollectionMemberKey :: "config \<Rightarrow> key \<Rightarrow> (key \<times> string) option" where
  "splitCollectionMemberKey cfg k =
     (case getCollectionKey cfg k of
        None \<Rightarrow> None
      | Some collectionKey \<Rightarrow> Some (collectionKey, drop (length collectionKey) k))"

text \<open>
  Modelled from the spec: \<open>OnyxUtils.splitCollectionMemberKey\<close> called with the key and the
  collection key; it throws when the key is not a member of that collection.
\<close>

definition splitCollectionMemberKeyOf :: "key \<Rightarrow> key \<Rightarrow> (key \<times> string) option" where
  "splitCollectionMemberKeyOf k collectionKey =
     (if isCollectionMemberKey collectionKey k then Some (collectionKey, drop (length collectionKey) k)
      else None)"

text \<open>
  The block that opens \<open>set\<close> and \<open>merge\<close>: with a non-empty set of skippable member ids,
  split the key and look its member id up; a split that throws is caught and the key is not
  skippable.
\<close>

definition isSkippable :: "config \<Rightarrow> key \<Rightarrow> bool" where
  "isSkippable cfg k =
     (skippableCollectionMemberIDs cfg \<noteq> [] \<and>
      (case splitCollectionMemberKey cfg k of
         None \<Rightarrow> False
       | Some (collectionKey, collectionMemberID) \<Rightarrow> collectionMemberID \<in> set (skippableCollectionMemberIDs cfg)))"

subsection \<open>Reads, removal and notification\<close>

text \<open>
  Modelled from the spec: \<open>OnyxUtils.get\<close>, which is not in \<open>Onyx.ts\<close>. It reads from
  cache or storage (Section 4.3 step 1); the cache is populated on the first read, and a key
  that storage does not have enters the nullish-key set (Section 3). The read is made when
  \<open>get\<close> is called.
\<close>

definition get :: "key \<Rightarrow> store \<Rightarrow> json \<times> store" where
  "get k s =
     (case map_of (cache s) k of
        Some v \<Rightarrow> (v, s)
      | None \<Rightarrow>
          if k \<in> set (nullishStorageKeys s) then (JUndefined, s)
          else (case map_of (storage s) k of
                  None \<Rightarrow> (JUndefined, emit (StorageGetItem k) (s\<lparr>nullishStorageKeys := k # nullishStorageKeys s\<rparr>))
                | Some v \<Rightarrow> (v, emit (StorageGetItem k) (cache_set k v s))))"

text \<open>The elements of a list in the order of their first occurrence, as a JavaScript \<open>Set\<close> keeps them.\<close>

definition uniq :: "'a list \<Rightarrow> 'a list" where
  "uniq xs = rev (remdups (rev xs))"

text \<open>
  Modelled from the spec: \<open>OnyxUtils.getAllKeys\<close>, which is not in \<open>Onyx.ts\<close>. It fetches
  all keys (Section 4.8 step 1): every key that the store holds, those of storage and those
  of the cache. The source names its result \<open>cachedKeys\<close> in \<open>clear\<close> and
  \<open>persistedKeys\<close> in \<open>mergeCollection\<close> and \<open>setCollection\<close>. The keys are read
  when \<open>getAllKeys\<close> is called.
\<close>

definition getAllKeys :: "store \<Rightarrow> key list" where
  "getAllKeys s = uniq (map fst (storage s) @ map fst (cache s))"

text \<open>
  Modelled from the spec: \<open>OnyxUtils.scheduleSubscriberUpdate\<close> (Section 6), a call of the
  subscriber registry, recorded.
\<close>

definition scheduleSubscriberUpdate :: "key \<Rightarrow> json \<Rightarrow> json \<Rightarrow> store \<Rightarrow> store" where
  "scheduleSubscriberUpdate k v prevValue s = emit (SubscriberUpdate k v prevValue) s"

text \<open>
  Modelled from the spec: \<open>OnyxUtils.scheduleNotifyCollectionSubscribers\<close> (Section 6), a
  call of the subscriber registry, recorded.
\<close>

definition scheduleNotifyCollectionSubscribers :: "key \<Rightarrow> (key \<times> json) list \<Rightarrow> json \<Rightarrow> store \<Rightarrow> store" where
  "scheduleNotifyCollectionSubscribers collectionKey members previous s =
     emit (NotifyCollectionSubscribers collectionKey members previous) s"

text \<open>
  Modelled from the spec: \<open>OnyxUtils.remove\<close>. Section 4.3 step 8: remove the key from
  storage and cache, notify the subscribers.
\<close>

definition remove :: "key \<Rightarrow> store \<Rightarrow> store" where
  "remove k s =
     Storage_removeItem k (scheduleSubscriberUpdate k JUndefined (cache_get s k) (cache_drop k s))"

text \<open>
  Modelled from the spec: \<open>OnyxUtils.removeNullValues\<close>. Section 4.4 step 6: a \<open>null\<close>
  value removes the key; any other value has its nested nulls stripped. The result is the
  value, \<open>wasRemoved\<close> and the store.
\<close>

definition removeNullValues :: "key \<Rightarrow> json \<Rightarrow> store \<Rightarrow> json \<times> bool \<times> store" where
  "removeNullValues k v s =
     (if v = JNull then (v, True, remove k s)
      else if v = JUndefined then (v, False, s)
      else (removeNestedNullValues v, False, s))"

text \<open>
  Modelled from the spec: \<open>OnyxUtils.broadcastUpdate\<close>. Section 4.3 step 10: update the
  cache and broadcast.
\<close>

definition broadcastUpdate :: "key \<Rightarrow> json \<Rightarrow> bool \<Rightarrow> store \<Rightarrow> store" where
  "broadcastUpdate k v hasChanged s = emit (BroadcastUpdate k v hasChanged) (cache_set k v s)"

text \<open>
  Modelled from the spec: \<open>OnyxUtils.hasPendingMergeForKey\<close>. Section 4.4 step 1: the key
  has a merge queue entry.
\<close>

definition hasPendingMergeForKey :: "store \<Rightarrow> key \<Rightarrow> bool" where
  "hasPendingMergeForKey s k = (map_of (mergeQueue s) k \<noteq> None)"

section \<open>The write operations of \<open>Onyx.ts\<close>\<close>

text \<open>
  An operation returns the promise it hands back, the continuations it has scheduled and
  the store as its synchronous part leaves it. \<open>Resolved\<close> is \<open>Promise.resolve()\<close>; the
  other promises settle with the work they are chained on. A continuation is the callback of
  a \<open>then\<close>: it runs later, on the store as it is then, with the value read when the
  operation was called.
\<close>

datatype promise =
    Resolved
  | UpdatePromise
  | StoragePromise
  | QueuePromise key
  | TaskPromise

datatype task =
    MergeFold key json
  | MergeCollectionBody key "(key \<times> json) list" "key list"
  | SetCollectionBody key "(key \<times> json) list" "key list"
  | ClearBody "key list" "key list"

subsection \<open>\<open>set\<close>\<close>

definition set_op :: "config \<Rightarrow> key \<Rightarrow> json \<Rightarrow> store \<Rightarrow> promise \<times> store" where
  "set_op cfg k value0 s0 =
     (let s = (if hasPendingMergeForKey s0 k then s0\<lparr>mergeQueue := AList.delete k (mergeQueue s0)\<rparr> else s0);
          v = (if isSkippable cfg k then JNull else value0)
      in if v = JUndefined then (Resolved, s)
         else
           let existingValue = cache_get s k
           in if existingValue = JUndefined \<and> v = JNull then (Resolved, s)
              else if \<not> isCompatible v existingValue then (Resolved, emit (LogAlert ''set'' k) s)
              else
                (case removeNullValues k v s of
                   (valueAfterRemoving, wasRemoved, s1) \<Rightarrow>
                     if wasRemoved then (Resolved, emit (LogInfo ''set'') s1)
                     else
                       let hasChanged = hasValueChanged s1 k valueAfterRemoving;
                           s2 = broadcastUpdate k valueAfterRemoving hasChanged (emit (LogInfo ''set'') s1)
                       in if \<not> hasChanged then (UpdatePromise, s2)
                          else (StoragePromise, Storage_setItem k valueAfterRemoving s2)))"

subsection \<open>\<open>merge\<close>\<close>

text \<open>The synchronous part: coerce, enqueue, and start a fold when the key has no queue.\<close>

definition merge :: "config \<Rightarrow> key \<Rightarrow> json \<Rightarrow> store \<Rightarrow> promise \<times> task list \<times> store" where
  "merge cfg k changes0 s =
     (let changes = (if isSkippable cfg k then JUndefined else changes0)
      in if changes = JUndefined
         then ((if hasPendingMergeForKey s k then QueuePromise k else Resolved), [], s)
         else
           (case map_of (mergeQueue s) k of
              Some queue \<Rightarrow>
                (QueuePromise k, [], s\<lparr>mergeQueue := AList.update k (queue @ [changes]) (mergeQueue s)\<rparr>)
            | None \<Rightarrow>
                (case get k (s\<lparr>mergeQueue := AList.update k [changes] (mergeQueue s)\<rparr>) of
                   (existingValue, s1) \<Rightarrow>
                     (QueuePromise k, [MergeFold k existingValue],
                      s1\<lparr>mergeQueuePromise := List.insert k (mergeQueuePromise s1)\<rparr>))))"

text \<open>The expression of \<open>shouldSetValue\<close>: \<open>!existingValue || mergeQueue[key].includes(null)\<close>.\<close>

definition shouldSetValue :: "json \<Rightarrow> json list \<Rightarrow> bool" where
  "shouldSetValue existingValue queue = (\<not> truthy existingValue \<or> JNull \<in> set queue)"

text \<open>The alerts of the filter, one for each incompatible change, in queue order.\<close>

definition logIncompatible :: "string \<Rightarrow> key \<Rightarrow> json \<Rightarrow> json list \<Rightarrow> store \<Rightarrow> store" where
  "logIncompatible method k existingValue queue s =
     foldl (\<lambda>st change. if isCompatible change existingValue then st else emit (LogAlert method k) st) s queue"

text \<open>
  The continuation of \<open>OnyxUtils.get(key).then\<close>, in two parts: \<open>merge_fold\<close> up to the
  clean-up of the write queue, \<open>merge_write\<close> from \<open>removeNullValues\<close> on. Nothing in the
  model throws inside the \<open>try\<close> block, so its \<open>catch\<close> branch has no counterpart.
\<close>

definition merge_write :: "key \<Rightarrow> json \<Rightarrow> bool \<Rightarrow> json \<Rightarrow> store \<Rightarrow> promise \<times> store" where
  "merge_write k existingValue shouldSet batchedDeltaChanges s =
     (case removeNullValues k batchedDeltaChanges s of
        (valueAfterRemoving, wasRemoved, s1) \<Rightarrow>
          if wasRemoved then (Resolved, emit (LogInfo ''merge'') s1)
          else
            let preMergedValue = applyMerge (if shouldSet then JUndefined else existingValue)
                                   [batchedDeltaChanges] True;
                hasChanged = hasValueChanged s1 k preMergedValue;
                s2 = broadcastUpdate k preMergedValue hasChanged (emit (LogInfo ''merge'') s1)
            in if \<not> hasChanged then (UpdatePromise, s2)
               else (StoragePromise, Storage_mergeItem k batchedDeltaChanges preMergedValue shouldSet s2))"

definition merge_fold :: "key \<Rightarrow> json \<Rightarrow> store \<Rightarrow> promise \<times> store" where
  "merge_fold k existingValue s =
     (case map_of (mergeQueue s) k of
        None \<Rightarrow> (Resolved, s)
      | Some queue \<Rightarrow>
          let validChanges = filter (\<lambda>change. isCompatible change existingValue) queue;
              s1 = logIncompatible ''merge'' k existingValue queue s
          in if validChanges = [] then (Resolved, s1)
             else
               let batchedDeltaChanges = applyMerge JUndefined validChanges False;
                   shouldSet = shouldSetValue existingValue queue
               in merge_write k existingValue shouldSet batchedDeltaChanges
                    (s1\<lparr>mergeQueue := AList.delete k (mergeQueue s1),
                        mergeQueuePromise := removeAll k (mergeQueuePromise s1)\<rparr>))"

subsection \<open>\<open>multiSet\<close>\<close>

text \<open>
  Modelled from the spec: \<open>OnyxUtils.prepareKeyValuePairsForStorage\<close>, which is not in
  \<open>Onyx.ts\<close>: the entries of the object, nested nulls stripped or preserved (Section 4.6
  step 5), an \<open>undefined\<close> value never being stored (Section 3).
\<close>

definition prepareKeyValuePairsForStorage :: "(key \<times> json) list \<Rightarrow> bool \<Rightarrow> (key \<times> json) list" where
  "prepareKeyValuePairsForStorage data shouldRemoveNestedNulls =
     filter (\<lambda>(k, v). v \<noteq> JUndefined)
       (map (\<lambda>(k, v). (k, if shouldRemoveNestedNulls then removeNestedNullValues v else v)) data)"

text \<open>The \<open>reduce\<close> that rebuilds the data with the skippable members set to \<open>null\<close>.\<close>

definition coerceSkippable :: "config \<Rightarrow> (key \<Rightarrow> bool) \<Rightarrow> (key \<times> json) list \<Rightarrow> (key \<times> json) list" where
  "coerceSkippable cfg skippable data =
     (if skippableCollectionMemberIDs cfg = [] then data
      else foldl (\<lambda>result k. AList.update k (if skippable k then JNull else lookup data k) result)
             [] (map fst data))"

definition isSkippableOf :: "config \<Rightarrow> key \<Rightarrow> key \<Rightarrow> bool" where
  "isSkippableOf cfg collectionKey k =
     (case splitCollectionMemberKeyOf k collectionKey of
        None \<Rightarrow> False
      | Some (ck, collectionMemberID) \<Rightarrow> collectionMemberID \<in> set (skippableCollectionMemberIDs cfg))"

definition multiSet_step :: "store \<Rightarrow> key \<times> json \<Rightarrow> store" where
  "multiSet_step s kv =
     (case kv of
        (k, v) \<Rightarrow>
          let prevValue = cache_get s k;
              s1 = (if hasPendingMergeForKey s k then s\<lparr>mergeQueue := AList.delete k (mergeQueue s)\<rparr> else s)
          in scheduleSubscriberUpdate k v prevValue (cache_set k v s1))"

definition multiSet :: "config \<Rightarrow> (key \<times> json) list \<Rightarrow> store \<Rightarrow> promise \<times> store" where
  "multiSet cfg data s =
     (let newData = coerceSkippable cfg (isSkippable cfg) data;
          keyValuePairsToSet = prepareKeyValuePairsForStorage newData True
      in (StoragePromise, Storage_multiSet keyValuePairsToSet (foldl multiSet_step s keyValuePairsToSet)))"

subsection \<open>\<open>mergeCollection\<close>\<close>

text \<open>
  Modelled from the spec: \<open>OnyxUtils.isValidNonEmptyCollectionForMerge\<close>, which is not in
  \<open>Onyx.ts\<close>. Section 4.6 step 1: the input is a non-empty object.
\<close>

definition isValidNonEmptyCollectionForMerge :: "json \<Rightarrow> bool" where
  "isValidNonEmptyCollectionForMerge collection = (case collection of JObj kvs \<Rightarrow> kvs \<noteq> [] | _ \<Rightarrow> False)"

text \<open>
  Modelled from the spec: \<open>OnyxUtils.getCachedCollection\<close>, which is not in \<open>Onyx.ts\<close>:
  the projection of the cache on the given member keys or, without them, on the cached
  members of the collection (Section 2, collection helpers).
\<close>

definition getCachedCollection :: "store \<Rightarrow> key \<Rightarrow> key list option \<Rightarrow> (key \<times> json) list" where
  "getCachedCollection s collectionKey collectionMemberKeys =
     foldl (\<lambda>collection k. if cache_get s k = JUndefined then collection
                              else AList.update k (cache_get s k) collection)
       []
       (case collectionMemberKeys of
          Some ks \<Rightarrow> ks
        | None \<Rightarrow> filter (isCollectionMemberKey collectionKey) (map fst (cache s)))"

text \<open>
  Modelled from the spec: \<open>cache.merge\<close>, which is not in \<open>Onyx.ts\<close>. Section 4.6 step 6:
  each value is merged into the cached one.
\<close>

definition cache_merge :: "(key \<times> json) list \<Rightarrow> store \<Rightarrow> store" where
  "cache_merge data s = foldl (\<lambda>st (k, v). cache_set k (fastMerge True (cache_get st k) v) st) s data"


definition mergeCollection :: "config \<Rightarrow> key \<Rightarrow> json \<Rightarrow> store \<Rightarrow> promise \<times> task list \<times> store" where
  "mergeCollection cfg collectionKey collection s =
     (if \<not> isValidNonEmptyCollectionForMerge collection
      then (Resolved, [], emit (LogInfo ''mergeCollection'') s)
      else if \<not> doAllCollectionItemsBelongToSameParent collectionKey (map fst (objectEntries collection))
      then (Resolved, [], s)
      else
        let resultCollection = coerceSkippable cfg (isSkippableOf cfg collectionKey) (objectEntries collection)
        in (TaskPromise, [MergeCollectionBody collectionKey resultCollection (getAllKeys s)], s))"

text \<open>The continuation of \<open>getAllKeys().then\<close> in \<open>mergeCollection\<close>.\<close>

definition mergeCollection_body :: "key \<Rightarrow> (key \<times> json) list \<Rightarrow> key list \<Rightarrow> store \<Rightarrow> store" where
  "mergeCollection_body collectionKey resultCollection persistedKeys s =
     (let resultCollectionKeys = map fst resultCollection;
          s1 = foldl (\<lambda>st k. if lookup resultCollection k = JNull then remove k st else st) s resultCollectionKeys;
          keys = filter (\<lambda>k. lookup resultCollection k \<noteq> JNull) resultCollectionKeys;
          existingKeys = filter (\<lambda>k. k \<in> set persistedKeys) keys;
          cachedCollectionForExistingKeys = getCachedCollection s1 collectionKey (Some existingKeys);
          compatible = (\<lambda>k. isCompatible (lookup resultCollection k) (lookup cachedCollectionForExistingKeys k));
          s2 = foldl (\<lambda>st k. if compatible k then st else emit (LogAlert ''mergeCollection'' k) st) s1 existingKeys;
          existingKeyCollection = foldl (\<lambda>obj k. if compatible k then AList.update k (lookup resultCollection k) obj else obj)
                                    [] existingKeys;
          newCollection = foldl (\<lambda>obj k. if k \<in> set persistedKeys then obj
                                           else AList.update k (lookup resultCollection k) obj)
                            [] keys;
          keyValuePairsForExistingCollection = prepareKeyValuePairsForStorage existingKeyCollection False;
          keyValuePairsForNewCollection = prepareKeyValuePairsForStorage newCollection True;
          previous = foldl (\<lambda>(obj, st) k. case get k st of (v, st') \<Rightarrow> (AList.update k v obj, st')) ([], s2) existingKeys;
          s4 = (if keyValuePairsForExistingCollection \<noteq> []
                then Storage_multiMerge keyValuePairsForExistingCollection (snd previous) else snd previous);
          s5 = (if keyValuePairsForNewCollection \<noteq> []
                then Storage_multiSet keyValuePairsForNewCollection s4 else s4);
          finalMergedCollection = foldl (\<lambda>obj (k, v). AList.update k v obj) existingKeyCollection newCollection
      in scheduleNotifyCollectionSubscribers collectionKey finalMergedCollection (JObj (fst previous))
           (cache_merge finalMergedCollection s5))"

subsection \<open>\<open>setCollection\<close>\<close>

text \<open>\<open>Object.keys\<close> throws a \<open>TypeError\<close> on \<open>null\<close> and \<open>undefined\<close>.\<close>

datatype error = TypeError | Error string

definition setCollection :: "config \<Rightarrow> key \<Rightarrow> json \<Rightarrow> store \<Rightarrow> error + (promise \<times> task list \<times> store)" where
  "setCollection cfg collectionKey collection s =
     (if nullish collection then Inl TypeError
      else if \<not> doAllCollectionItemsBelongToSameParent collectionKey (map fst (objectEntries collection))
      then Inr (Resolved, [], emit (LogAlert ''setCollection'' collectionKey) s)
      else
        let resultCollection = coerceSkippable cfg (isSkippableOf cfg collectionKey) (objectEntries collection)
        in Inr (TaskPromise, [SetCollectionBody collectionKey resultCollection (getAllKeys s)], s))"

definition setCollection_body :: "key \<Rightarrow> (key \<times> json) list \<Rightarrow> key list \<Rightarrow> store \<Rightarrow> store" where
  "setCollection_body collectionKey resultCollection persistedKeys s =
     (let resultCollectionKeys = map fst resultCollection;
          mutableCollection = foldl (\<lambda>obj k. if \<not> startsWith k collectionKey then obj
                                               else if k \<in> set resultCollectionKeys then obj
                                               else AList.update k JNull obj)
                                resultCollection persistedKeys;
          keyValuePairs = prepareKeyValuePairsForStorage mutableCollection True;
          previousCollection = getCachedCollection s collectionKey None;
          s1 = foldl (\<lambda>st (k, v). cache_set k v st) s keyValuePairs
      in Storage_multiSet keyValuePairs
           (scheduleNotifyCollectionSubscribers collectionKey mutableCollection (JObj previousCollection) s1))"

subsection \<open>\<open>clear\<close>\<close>

text \<open>
  \<open>newValue !== oldValue\<close> compares scalars by value and objects by identity. Values carry
  no identity here: a cached array or object is taken to be another object than the one of
  the default key states, so the two differ.
\<close>

definition strictEq :: "json \<Rightarrow> json \<Rightarrow> bool" where
  "strictEq a b = (case a of JArr xs \<Rightarrow> False | JObj kvs \<Rightarrow> False | _ \<Rightarrow> a = b)"

text \<open>
  The synchronous part of \<open>clear\<close>: it reads the keys and schedules the rest. The
  registration of the promise as the pending task \<open>CLEAR\<close> is left out with the
  pending-task map.
\<close>

definition clear :: "key list \<Rightarrow> store \<Rightarrow> promise \<times> task list \<times> store" where
  "clear keysToPreserve s = (TaskPromise, [ClearBody keysToPreserve (getAllKeys s)], s)"

text \<open>
  The body of \<open>allKeys.forEach\<close>: the store, \<open>keysToBeClearedFromStorage\<close>,
  \<open>keyValuesToResetAsCollection\<close> and \<open>keyValuesToResetIndividually\<close> after one key.
\<close>

type_synonym clear_acc = "store \<times> key list \<times> (key \<times> (key \<times> json) list) list \<times> (key \<times> json) list"

definition clear_step :: "config \<Rightarrow> key list \<Rightarrow> clear_acc \<Rightarrow> key \<Rightarrow> clear_acc" where
  "clear_step cfg keysToPreserve acc k =
     (case acc of
        (s, keysToBeClearedFromStorage, asCollection, individually) \<Rightarrow>
          let isKeyToPreserve = (k \<in> set keysToPreserve);
              isDefaultKey = (k \<in> fst ` set (defaultKeyStates cfg));
              oldValue = cache_get s k;
              newValue = coalesce (lookup (defaultKeyStates cfg) k) JNull;
              reset = (\<not> isKeyToPreserve \<and> \<not> strictEq newValue oldValue);
              s1 = (if reset then cache_set k newValue s else s);
              collectionKey = (case getCollectionKey cfg k of None \<Rightarrow> [] | Some ck \<Rightarrow> ck);
              asCollection1 =
                (if reset \<and> collectionKey \<noteq> []
                 then AList.update collectionKey
                        (AList.update k (coalesce newValue JUndefined)
                           (case map_of asCollection collectionKey of None \<Rightarrow> [] | Some members \<Rightarrow> members))
                        asCollection
                 else asCollection);
              individually1 =
                (if reset \<and> collectionKey = []
                 then AList.update k (coalesce newValue JUndefined) individually
                 else individually)
          in if isKeyToPreserve \<or> isDefaultKey
             then (s1, keysToBeClearedFromStorage, asCollection1, individually1)
             else (s1, keysToBeClearedFromStorage @ [k], asCollection1, individually1))"

text \<open>The continuation of \<open>getAllKeys().then\<close> in \<open>clear\<close>, up to the last storage call.\<close>

definition clear_body :: "config \<Rightarrow> key list \<Rightarrow> key list \<Rightarrow> store \<Rightarrow> store" where
  "clear_body cfg keysToPreserve cachedKeys s =
     (let initialKeys = map fst (defaultKeyStates cfg);
          allKeys = uniq (cachedKeys @ initialKeys)
      in (case foldl (clear_step cfg keysToPreserve) (clearNullishStorageKeys s, [], [], []) allKeys of
            (s1, keysToBeClearedFromStorage, asCollection, individually) \<Rightarrow>
              let s2 = foldl (\<lambda>st (k, v). scheduleSubscriberUpdate k v (cache_get st k) st) s1 individually;
                  s3 = foldl (\<lambda>st (ck, members). scheduleNotifyCollectionSubscribers ck members JUndefined st)
                         s2 asCollection;
                  defaultKeyValuePairs =
                    foldl (\<lambda>obj k. AList.update k (lookup (defaultKeyStates cfg) k) obj) []
                      (filter (\<lambda>k. k \<notin> set keysToPreserve) initialKeys);
                  s4 = foldl (\<lambda>st k. cache_drop k st) s3 keysToBeClearedFromStorage
              in Storage_multiSet defaultKeyValuePairs
                   (emit RefreshSessionID (Storage_removeItems keysToBeClearedFromStorage s4))))"

subsection \<open>Continuations\<close>

definition run_task :: "config \<Rightarrow> store \<Rightarrow> task \<Rightarrow> store" where
  "run_task cfg s t =
     (case t of
        MergeFold k existingValue \<Rightarrow> snd (merge_fold k existingValue s)
      | MergeCollectionBody collectionKey resultCollection persistedKeys \<Rightarrow>
          mergeCollection_body collectionKey resultCollection persistedKeys s
      | SetCollectionBody collectionKey resultCollection persistedKeys \<Rightarrow>
          setCollection_body collectionKey resultCollection persistedKeys s
      | ClearBody keysToPreserve cachedKeys \<Rightarrow> clear_body cfg keysToPreserve cachedKeys s)"

text \<open>The continuations run to completion, in the order in which they were scheduled.\<close>

definition run_tasks :: "config \<Rightarrow> task list \<Rightarrow> store \<Rightarrow> store" where
  "run_tasks cfg ts s = foldl (run_task cfg) s ts"

subsection \<open>\<open>update\<close>\<close>

text \<open>
  Modelled from the spec: the method names of \<open>OnyxUtils.METHOD\<close> (Section 6), a method
  outside them being \<open>UNKNOWN\<close>.
\<close>

datatype onyx_method = SET | MERGE | MERGE_COLLECTION | SET_COLLECTION | MULTI_SET | CLEAR | UNKNOWN string

datatype onyx_update = OnyxUpdate (onyxMethod: onyx_method) (updateKey: json) (updateValue: json)

text \<open>The operations that \<open>update\<close> defers: the thunks of its \<open>promises\<close> array.\<close>

datatype deferred =
    CallSet key json
  | CallMerge key json
  | CallMergeCollection key json
  | CallMultiSet "(key \<times> json) list"
  | CallSetCollection key json

definition validate :: "onyx_update \<Rightarrow> error option" where
  "validate u =
     (case onyxMethod u of
        UNKNOWN m \<Rightarrow> Some (Error ''Invalid onyxMethod in Onyx update.'')
      | MULTI_SET \<Rightarrow>
          (case updateValue u of
             JObj kvs \<Rightarrow> None
           | JNull \<Rightarrow> None
           | _ \<Rightarrow> Some (Error ''Invalid value provided in Onyx multiSet.''))
      | CLEAR \<Rightarrow> None
      | _ \<Rightarrow>
          (case updateKey u of
             JStr k \<Rightarrow> None
           | _ \<Rightarrow> Some (Error ''Invalid key provided in Onyx update.'')))"

definition keyOf :: "json \<Rightarrow> key" where
  "keyOf v = (case v of JStr k \<Rightarrow> k | _ \<Rightarrow> [])"

definition enqueueSetOperation :: "key \<Rightarrow> json \<Rightarrow> (key \<times> json list) list \<Rightarrow> (key \<times> json list) list" where
  "enqueueSetOperation k v updateQueue = AList.update k [JNull, v] updateQueue"

definition enqueueMergeOperation :: "key \<Rightarrow> json \<Rightarrow> (key \<times> json list) list \<Rightarrow> (key \<times> json list) list" where
  "enqueueMergeOperation k v updateQueue =
     (if v = JNull then AList.update k [JNull] updateQueue
      else (case map_of updateQueue k of
              None \<Rightarrow> AList.update k [v] updateQueue
            | Some operations \<Rightarrow> AList.update k (operations @ [v]) updateQueue))"

text \<open>\<open>updateQueue\<close>, \<open>promises\<close>, the continuations of the \<open>clear\<close> calls, and the store.\<close>

type_synonym update_acc = "(key \<times> json list) list \<times> deferred list \<times> task list \<times> store"

definition handler :: "update_acc \<Rightarrow> onyx_update \<Rightarrow> error + update_acc" where
  "handler acc u =
     (case acc of
        (updateQueue, promises, clearTasks, s) \<Rightarrow>
          (case onyxMethod u of
             SET \<Rightarrow> Inr (enqueueSetOperation (keyOf (updateKey u)) (updateValue u) updateQueue, promises, clearTasks, s)
           | MERGE \<Rightarrow> Inr (enqueueMergeOperation (keyOf (updateKey u)) (updateValue u) updateQueue, promises, clearTasks, s)
           | MERGE_COLLECTION \<Rightarrow>
               if \<not> isValidNonEmptyCollectionForMerge (updateValue u)
               then Inr (updateQueue, promises, clearTasks, emit (LogInfo ''update'') s)
               else
                 let collection = objectEntries (updateValue u);
                     collectionKeys = map fst collection
                 in if doAllCollectionItemsBelongToSameParent (keyOf (updateKey u)) collectionKeys
                    then Inr (foldl (\<lambda>q collectionKey. enqueueMergeOperation collectionKey (lookup collection collectionKey) q)
                                updateQueue collectionKeys,
                              promises, clearTasks, s)
                    else Inr (updateQueue, promises, clearTasks, s)
           | SET_COLLECTION \<Rightarrow>
               Inr (updateQueue, promises @ [CallSetCollection (keyOf (updateKey u)) (updateValue u)], clearTasks, s)
           | MULTI_SET \<Rightarrow>
               if nullish (updateValue u) then Inl TypeError
               else Inr (foldl (\<lambda>q (entryKey, entryValue). enqueueSetOperation entryKey entryValue q)
                           updateQueue (objectEntries (updateValue u)),
                         promises, clearTasks, s)
           | CLEAR \<Rightarrow>
               (case clear [] s of (p, ts, s1) \<Rightarrow> Inr (updateQueue, promises, clearTasks @ ts, s1))
           | UNKNOWN m \<Rightarrow> Inl TypeError))"

fun handle_all :: "update_acc \<Rightarrow> onyx_update list \<Rightarrow> error option \<times> update_acc" where
  "handle_all acc [] = (None, acc)"
| "handle_all acc (u # us) =
     (case handler acc u of
        Inl e \<Rightarrow> (Some e, acc)
      | Inr acc1 \<Rightarrow> handle_all acc1 us)"

definition firstIsNull :: "json list \<Rightarrow> bool" where
  "firstIsNull operations = (case operations of JNull # rest \<Rightarrow> True | _ \<Rightarrow> False)"

text \<open>
  The \<open>reduce\<close> over the queued keys of one collection: the queue without the key, and the
  \<open>merge\<close> and \<open>set\<close> objects of \<open>batchedCollectionUpdates\<close>.
\<close>

definition batch_step ::
  "(key \<times> json list) list \<times> (key \<times> json) list \<times> (key \<times> json) list \<Rightarrow> key
     \<Rightarrow> (key \<times> json list) list \<times> (key \<times> json) list \<times> (key \<times> json) list" where
  "batch_step acc k =
     (case acc of
        (updateQueue, mergeObj, setObj) \<Rightarrow>
          let operations = (case map_of updateQueue k of None \<Rightarrow> [] | Some ops \<Rightarrow> ops);
              updatedValue = applyMerge JUndefined operations False
          in if firstIsNull operations
             then (AList.delete k updateQueue, mergeObj, AList.update k updatedValue setObj)
             else (AList.delete k updateQueue, AList.update k updatedValue mergeObj, setObj))"

definition collapse_step ::
  "(key \<times> json list) list \<times> deferred list \<Rightarrow> key \<Rightarrow> (key \<times> json list) list \<times> deferred list" where
  "collapse_step acc collectionKey =
     (case acc of
        (updateQueue, promises) \<Rightarrow>
          let collectionItemKeys = filter (isKeyMatch collectionKey) (map fst updateQueue)
          in if length collectionItemKeys \<le> 1 then (updateQueue, promises)
             else
               (case foldl batch_step (updateQueue, [], []) collectionItemKeys of
                  (updateQueue1, mergeObj, setObj) \<Rightarrow>
                    (updateQueue1,
                     promises
                       @ (if mergeObj \<noteq> [] then [CallMergeCollection collectionKey (JObj mergeObj)] else [])
                       @ (if setObj \<noteq> [] then [CallMultiSet setObj] else []))))"

definition perKey :: "key \<times> json list \<Rightarrow> deferred" where
  "perKey entry =
     (case entry of
        (k, operations) \<Rightarrow>
          let batchedChanges = applyMerge JUndefined operations False
          in if firstIsNull operations then CallSet k batchedChanges else CallMerge k batchedChanges)"

text \<open>
  The first part of \<open>update\<close>, up to the last push on \<open>promises\<close>: the thunks of
  \<open>promises\<close>, or the error thrown, with the continuations of the \<open>clear\<close> calls made.
\<close>

definition update_promises ::
  "config \<Rightarrow> onyx_update list \<Rightarrow> store \<Rightarrow> (error + deferred list) \<times> task list \<times> store" where
  "update_promises cfg data s =
     (case List.map_filter validate data of
        e # es \<Rightarrow> (Inl e, [], s)
      | [] \<Rightarrow>
          (case handle_all ([], [], [], s) data of
             (Some e, (updateQueue, promises, clearTasks, s1)) \<Rightarrow> (Inl e, clearTasks, s1)
           | (None, (updateQueue, promises, clearTasks, s1)) \<Rightarrow>
               (case foldl collapse_step (updateQueue, promises) (collectionKeys cfg) of
                  (updateQueue1, promises1) \<Rightarrow>
                    (Inr (promises1 @ map perKey updateQueue1), clearTasks, s1))))"

text \<open>
  \<open>OnyxUtils.updateSnapshots\<close> is not in \<open>Onyx.ts\<close>; it is given the data and the \<open>merge\<close>
  function and returns thunks. It is a parameter here: the key and the change of each
  \<open>merge\<close> call that it returns, for the data and the store.

  \<open>update\<close> gives \<open>finalPromises\<close>, the snapshot thunks followed by \<open>promises\<close>.
\<close>

definition update ::
  "config \<Rightarrow> (onyx_update list \<Rightarrow> store \<Rightarrow> (key \<times> json) list) \<Rightarrow> onyx_update list \<Rightarrow> store
     \<Rightarrow> (error + deferred list) \<times> task list \<times> store" where
  "update cfg updateSnapshots data s =
     (case update_promises cfg data s of
        (Inl e, clearTasks, s1) \<Rightarrow> (Inl e, clearTasks, s1)
      | (Inr promises, clearTasks, s1) \<Rightarrow>
          let snapshotPromises = map (\<lambda>(k, v). CallMerge k v) (updateSnapshots data s1)
          in (Inr (snapshotPromises @ promises), clearTasks, s1))"




section \<open>Runs and observations\<close>

text \<open>Calls of \<open>merge\<close> on one key, made one after the other before any continuation runs.\<close>

fun merge_all :: "config \<Rightarrow> key \<Rightarrow> json list \<Rightarrow> store \<Rightarrow> task list \<times> store" where
  "merge_all cfg k [] s = ([], s)"
| "merge_all cfg k (d # ds) s =
     (case merge cfg k d s of
        (p, ts, s1) \<Rightarrow> (case merge_all cfg k ds s1 of (ts1, s2) \<Rightarrow> (ts @ ts1, s2)))"

text \<open>\<open>updateQueue[key]\<close>, for the keys that the queue holds.\<close>

definition queuedOps :: "(key \<times> json list) list \<Rightarrow> key \<Rightarrow> json list" where
  "queuedOps q k = (case map_of q k of None \<Rightarrow> [] | Some ops \<Rightarrow> ops)"

text \<open>The storage reads and the storage writes of a key in the trace.\<close>

fun isStorageRead :: "key \<Rightarrow> event \<Rightarrow> bool" where
  "isStorageRead k (StorageGetItem k') = (k' = k)"
| "isStorageRead k e = False"

fun isStorageWrite :: "key \<Rightarrow> event \<Rightarrow> bool" where
  "isStorageWrite k (StorageSetItem k' v) = (k' = k)"
| "isStorageWrite k (StorageMergeItem k' d v b) = (k' = k)"
| "isStorageWrite k (StorageRemoveItem k') = (k' = k)"
| "isStorageWrite k (StorageMultiSet pairs) = (k \<in> fst ` set pairs)"
| "isStorageWrite k (StorageMultiMerge pairs) = (k \<in> fst ` set pairs)"
| "isStorageWrite k (StorageRemoveItems ks) = (k \<in> set ks)"
| "isStorageWrite k e = False"

definition storage_reads :: "key \<Rightarrow> store \<Rightarrow> nat" where
  "storage_reads k s = length (filter (isStorageRead k) (trace s))"

definition storage_writes :: "key \<Rightarrow> store \<Rightarrow> nat" where
  "storage_writes k s = length (filter (isStorageWrite k) (trace s))"

fun isMergeItem :: "event \<Rightarrow> bool" where
  "isMergeItem (StorageMergeItem k d v b) = True"
| "isMergeItem e = False"

fun isLog :: "event \<Rightarrow> bool" where
  "isLog (LogAlert m k) = True"
| "isLog (LogInfo m) = True"
| "isLog e = False"

text \<open>The stores and configurations of the scenarios.\<close>

definition emptyStore :: store where
  "emptyStore = \<lparr>cache = [], nullishStorageKeys = [], storage = [], mergeQueue = [],
                  mergeQueuePromise = [], trace = []\<rparr>"

definition storeOf :: "(key \<times> json) list \<Rightarrow> store" where
  "storeOf kvs = emptyStore\<lparr>cache := kvs, storage := kvs\<rparr>"

definition plainConfig :: config where
  "plainConfig = \<lparr>collectionKeys = [''r_''], defaultKeyStates = [], skippableCollectionMemberIDs = []\<rparr>"

definition skipConfig :: config where
  "skipConfig = \<lparr>collectionKeys = [''r_''], defaultKeyStates = [], skippableCollectionMemberIDs = [''42'']\<rparr>"

definition langConfig :: config where
  "langConfig = \<lparr>collectionKeys = [''r_''], defaultKeyStates = [(''lang'', JStr ''en'')],
                   skippableCollectionMemberIDs = []\<rparr>"

definition oneSnapshot :: "onyx_update list \<Rightarrow> store \<Rightarrow> (key \<times> json) list" where
  "oneSnapshot data s = [(''snapshot_1'', JObj [(''data'', JNum 1)])]"

definition noSnapshots :: "onyx_update list \<Rightarrow> store \<Rightarrow> (key \<times> json) list" where
  "noSnapshots data s = []"

section \<open>Proofs\<close>

lemma lookup_update [simp]: "lookup (AList.update k v al) k' = (if k' = k then v else lookup al k')"
  by (simp add: lookup_def update_conv')

lemma lookup_delete [simp]: "lookup (AList.delete k al) k' = (if k' = k then JUndefined else lookup al k')"
  by (simp add: lookup_def delete_conv')

lemma emit_simps [simp]:
  "trace (emit e s) = trace s @ [e]"
  "cache (emit e s) = cache s"
  "storage (emit e s) = storage s"
  "mergeQueue (emit e s) = mergeQueue s"
  "mergeQueuePromise (emit e s) = mergeQueuePromise s"
  "nullishStorageKeys (emit e s) = nullishStorageKeys s"
  by (simp_all add: emit_def)

lemma cache_set_simps [simp]:
  "trace (cache_set k v s) = trace s"
  "storage (cache_set k v s) = storage s"
  "mergeQueue (cache_set k v s) = mergeQueue s"
  "mergeQueuePromise (cache_set k v s) = mergeQueuePromise s"
  "nullishStorageKeys (cache_set k v s) = nullishStorageKeys s"
  "cache (cache_set k v s) = (if v = JUndefined then AList.delete k (cache s) else AList.update k v (cache s))"
  by (simp_all add: cache_set_def)

lemma cache_drop_simps [simp]:
  "trace (cache_drop k s) = trace s"
  "storage (cache_drop k s) = storage s"
  "mergeQueue (cache_drop k s) = mergeQueue s"
  "mergeQueuePromise (cache_drop k s) = mergeQueuePromise s"
  "nullishStorageKeys (cache_drop k s) = nullishStorageKeys s"
  "cache (cache_drop k s) = AList.delete k (cache s)"
  by (simp_all add: cache_drop_def)

lemma scheduleSubscriberUpdate_simps [simp]:
  "trace (scheduleSubscriberUpdate k v p s) = trace s @ [SubscriberUpdate k v p]"
  "cache (scheduleSubscriberUpdate k v p s) = cache s"
  "storage (scheduleSubscriberUpdate k v p s) = storage s"
  "mergeQueue (scheduleSubscriberUpdate k v p s) = mergeQueue s"
  "mergeQueuePromise (scheduleSubscriberUpdate k v p s) = mergeQueuePromise s"
  "nullishStorageKeys (scheduleSubscriberUpdate k v p s) = nullishStorageKeys s"
  by (simp_all add: scheduleSubscriberUpdate_def)

lemma scheduleNotifyCollectionSubscribers_simps [simp]:
  "trace (scheduleNotifyCollectionSubscribers ck m p s) = trace s @ [NotifyCollectionSubscribers ck m p]"
  "cache (scheduleNotifyCollectionSubscribers ck m p s) = cache s"
  "storage (scheduleNotifyCollectionSubscribers ck m p s) = storage s"
  "mergeQueue (scheduleNotifyCollectionSubscribers ck m p s) = mergeQueue s"
  "mergeQueuePromise (scheduleNotifyCollectionSubscribers ck m p s) = mergeQueuePromise s"
  "nullishStorageKeys (scheduleNotifyCollectionSubscribers ck m p s) = nullishStorageKeys s"
  by (simp_all add: scheduleNotifyCollectionSubscribers_def)

lemma broadcastUpdate_simps [simp]:
  "trace (broadcastUpdate k v h s) = trace s @ [BroadcastUpdate k v h]"
  "cache (broadcastUpdate k v h s) = cache (cache_set k v s)"
  "storage (broadcastUpdate k v h s) = storage s"
  "mergeQueue (broadcastUpdate k v h s) = mergeQueue s"
  "mergeQueuePromise (broadcastUpdate k v h s) = mergeQueuePromise s"
  "nullishStorageKeys (broadcastUpdate k v h s) = nullishStorageKeys s"
  by (simp_all add: broadcastUpdate_def)

lemma Storage_setItem_simps [simp]:
  "trace (Storage_setItem k v s) = trace s @ [StorageSetItem k v]"
  "cache (Storage_setItem k v s) = cache s"
  "storage (Storage_setItem k v s) = storage_put k v (storage s)"
  "mergeQueue (Storage_setItem k v s) = mergeQueue s"
  "mergeQueuePromise (Storage_setItem k v s) = mergeQueuePromise s"
  "nullishStorageKeys (Storage_setItem k v s) = nullishStorageKeys s"
  by (simp_all add: Storage_setItem_def)

lemma Storage_mergeItem_simps [simp]:
  "trace (Storage_mergeItem k d v b s) = trace s @ [StorageMergeItem k d v b]"
  "cache (Storage_mergeItem k d v b s) = cache s"
  "storage (Storage_mergeItem k d v b s) = storage_put k v (storage s)"
  "mergeQueue (Storage_mergeItem k d v b s) = mergeQueue s"
  "mergeQueuePromise (Storage_mergeItem k d v b s) = mergeQueuePromise s"
  "nullishStorageKeys (Storage_mergeItem k d v b s) = nullishStorageKeys s"
  by (simp_all add: Storage_mergeItem_def)

lemma Storage_removeItem_simps [simp]:
  "trace (Storage_removeItem k s) = trace s @ [StorageRemoveItem k]"
  "cache (Storage_removeItem k s) = cache s"
  "storage (Storage_removeItem k s) = AList.delete k (storage s)"
  "mergeQueue (Storage_removeItem k s) = mergeQueue s"
  "mergeQueuePromise (Storage_removeItem k s) = mergeQueuePromise s"
  "nullishStorageKeys (Storage_removeItem k s) = nullishStorageKeys s"
  by (simp_all add: Storage_removeItem_def)

lemma Storage_multiSet_simps [simp]:
  "trace (Storage_multiSet ps s) = trace s @ [StorageMultiSet ps]"
  "cache (Storage_multiSet ps s) = cache s"
  "storage (Storage_multiSet ps s) = foldl (\<lambda>st (k, v). storage_put k v st) (storage s) ps"
  "mergeQueue (Storage_multiSet ps s) = mergeQueue s"
  "mergeQueuePromise (Storage_multiSet ps s) = mergeQueuePromise s"
  "nullishStorageKeys (Storage_multiSet ps s) = nullishStorageKeys s"
  by (simp_all add: Storage_multiSet_def)

lemma Storage_multiMerge_simps [simp]:
  "trace (Storage_multiMerge ps s) = trace s @ [StorageMultiMerge ps]"
  "cache (Storage_multiMerge ps s) = cache s"
  "storage (Storage_multiMerge ps s)
     = foldl (\<lambda>st (k, v). storage_put k (fastMerge True (lookup st k) v) st) (storage s) ps"
  "mergeQueue (Storage_multiMerge ps s) = mergeQueue s"
  "mergeQueuePromise (Storage_multiMerge ps s) = mergeQueuePromise s"
  "nullishStorageKeys (Storage_multiMerge ps s) = nullishStorageKeys s"
  by (simp_all add: Storage_multiMerge_def)

lemma Storage_removeItems_simps [simp]:
  "trace (Storage_removeItems ks s) = trace s @ [StorageRemoveItems ks]"
  "cache (Storage_removeItems ks s) = cache s"
  "storage (Storage_removeItems ks s) = foldl (\<lambda>st k. AList.delete k st) (storage s) ks"
  "mergeQueue (Storage_removeItems ks s) = mergeQueue s"
  "mergeQueuePromise (Storage_removeItems ks s) = mergeQueuePromise s"
  "nullishStorageKeys (Storage_removeItems ks s) = nullishStorageKeys s"
  by (simp_all add: Storage_removeItems_def)

lemma remove_simps [simp]:
  "trace (remove k s) = trace s @ [SubscriberUpdate k JUndefined (cache_get s k), StorageRemoveItem k]"
  "cache (remove k s) = AList.delete k (cache s)"
  "storage (remove k s) = AList.delete k (storage s)"
  "mergeQueue (remove k s) = mergeQueue s"
  "mergeQueuePromise (remove k s) = mergeQueuePromise s"
  "nullishStorageKeys (remove k s) = nullishStorageKeys s"
  by (simp_all add: remove_def)

lemma cache_get_simps [simp]:
  "cache_get (emit e s) k = cache_get s k"
  "cache_get (s\<lparr>mergeQueue := X\<rparr>) k = cache_get s k"
  "cache_get (s\<lparr>mergeQueuePromise := Y\<rparr>) k = cache_get s k"
  "cache_get (s\<lparr>trace := Z\<rparr>) k = cache_get s k"
  by (simp_all add: cache_get_def)

lemma hasValueChanged_simps [simp]:
  "hasValueChanged (emit e s) k v = hasValueChanged s k v"
  "hasValueChanged (s\<lparr>mergeQueue := X\<rparr>) k v = hasValueChanged s k v"
  "hasValueChanged (s\<lparr>mergeQueuePromise := Y\<rparr>) k v = hasValueChanged s k v"
  "hasValueChanged (s\<lparr>trace := Z\<rparr>) k v = hasValueChanged s k v"
  by (simp_all add: hasValueChanged_def)

lemma logIncompatible_trace:
  "\<exists>evs. list_all isLog evs \<and> logIncompatible m k ex q s = s\<lparr>trace := trace s @ evs\<rparr>"
proof (induction q arbitrary: s)
  case Nil
  show ?case by (rule exI[of _ "[]"]) (simp add: logIncompatible_def)
next
  case (Cons c q)
  let ?s1 = "if isCompatible c ex then s else emit (LogAlert m k) s"
  have step: "logIncompatible m k ex (c # q) s = logIncompatible m k ex q ?s1"
    by (simp add: logIncompatible_def)
  obtain evs where e: "list_all isLog evs"
    "logIncompatible m k ex q ?s1 = ?s1\<lparr>trace := trace ?s1 @ evs\<rparr>"
    using Cons.IH[of ?s1] by blast
  show ?case
  proof (cases "isCompatible c ex")
    case True
    then show ?thesis using e step by auto
  next
    case False
    then have "list_all isLog (LogAlert m k # evs)
       \<and> logIncompatible m k ex (c # q) s = s\<lparr>trace := trace s @ (LogAlert m k # evs)\<rparr>"
      using e step by (simp add: emit_def)
    then show ?thesis by blast
  qed
qed

lemma isLog_not_write: "list_all isLog evs \<Longrightarrow> filter (isStorageWrite k) evs = []"
  by (induction evs) (auto elim: isLog.elims)

lemma isLog_not_read: "list_all isLog evs \<Longrightarrow> filter (isStorageRead k) evs = []"
  by (induction evs) (auto elim: isLog.elims)

lemma merge_write_trace:
  "\<exists>evs. trace (snd (merge_write k ex b d s)) = trace s @ evs
     \<and> length (filter (isStorageWrite k') evs) \<le> 1 \<and> filter (isStorageRead k') evs = []"
  by (simp add: merge_write_def removeNullValues_def Let_def)

lemma merge_fold_trace:
  "\<exists>evs. trace (snd (merge_fold k ex s)) = trace s @ evs
     \<and> length (filter (isStorageWrite k') evs) \<le> 1 \<and> filter (isStorageRead k') evs = []"
proof (cases "map_of (mergeQueue s) k")
  case None
  then show ?thesis by (simp add: merge_fold_def)
next
  case (Some q)
  obtain evs where e: "list_all isLog evs" "logIncompatible ''merge'' k ex q s = s\<lparr>trace := trace s @ evs\<rparr>"
    using logIncompatible_trace[of "''merge''" k ex q s] by blast
  let ?s2 = "s\<lparr>trace := trace s @ evs, mergeQueue := AList.delete k (mergeQueue s),
                mergeQueuePromise := removeAll k (mergeQueuePromise s)\<rparr>"
  note w = isLog_not_write[OF e(1), of k'] and r = isLog_not_read[OF e(1), of k']
  show ?thesis
  proof (cases "filter (\<lambda>c. isCompatible c ex) q = []")
    case True
    then have "trace (snd (merge_fold k ex s)) = trace s @ evs"
      using Some e(2) by (simp add: merge_fold_def)
    then show ?thesis using w r by simp
  next
    case False
    then have mf: "merge_fold k ex s =
        merge_write k ex (shouldSetValue ex q) (applyMerge JUndefined (filter (\<lambda>c. isCompatible c ex) q) False) ?s2"
      using Some e(2) by (simp add: merge_fold_def)
    obtain evs2 where e2: "trace (snd (merge_fold k ex s)) = trace ?s2 @ evs2"
      "length (filter (isStorageWrite k') evs2) \<le> 1" "filter (isStorageRead k') evs2 = []"
      unfolding mf using merge_write_trace by blast
    have "trace (snd (merge_fold k ex s)) = trace s @ (evs @ evs2)"
      using e2(1) by simp
    moreover have "length (filter (isStorageWrite k') (evs @ evs2)) \<le> 1"
      using w e2(2) by simp
    moreover have "filter (isStorageRead k') (evs @ evs2) = []"
      using r e2(3) by simp
    ultimately show ?thesis by blast
  qed
qed

lemma merge_fold_writes:
  "storage_writes k' (snd (merge_fold k ex s)) \<le> storage_writes k' s + 1"
  using merge_fold_trace[of k ex s k'] by (auto simp: storage_writes_def)

lemma merge_fold_reads:
  "storage_reads k' (snd (merge_fold k ex s)) = storage_reads k' s"
  using merge_fold_trace[of k ex s k'] by (auto simp: storage_reads_def)

lemma get_mergeQueue_update:
  "get k (s\<lparr>mergeQueue := X\<rparr>) = (fst (get k s), (snd (get k s))\<lparr>mergeQueue := X\<rparr>)"
  by (simp add: get_def cache_set_def emit_def split: option.splits)

lemma get_trace:
  "trace (snd (get k s)) = trace s \<or> trace (snd (get k s)) = trace s @ [StorageGetItem k]"
  by (simp add: get_def cache_set_def emit_def split: option.splits)

lemma get_mergeQueue [simp]: "mergeQueue (snd (get k s)) = mergeQueue s"
  by (simp add: get_def cache_set_def emit_def split: option.splits)

lemma get_reads: "storage_reads k' (snd (get k s)) \<le> storage_reads k' s + 1"
  using get_trace[of k s] by (auto simp: storage_reads_def)

lemma get_writes: "storage_writes k' (snd (get k s)) = storage_writes k' s"
  using get_trace[of k s] by (auto simp: storage_writes_def)

lemma merge_all_pending:
  assumes "\<not> isSkippable cfg k"
  shows "map_of (mergeQueue s) k = Some q \<Longrightarrow>
    merge_all cfg k ds s =
      ([], s\<lparr>mergeQueue := AList.update k (q @ filter (\<lambda>d. d \<noteq> JUndefined) ds) (mergeQueue s)\<rparr>)"
proof (induction ds arbitrary: s q)
  case Nil
  then show ?case by (simp add: update_triv)
next
  case (Cons d ds)
  show ?case
  proof (cases "d = JUndefined")
    case True
    then have "merge cfg k d s = (QueuePromise k, [], s)"
      using Cons.prems by (simp add: merge_def hasPendingMergeForKey_def)
    then show ?thesis using Cons.IH[OF Cons.prems] True by simp
  next
    case False
    let ?s1 = "s\<lparr>mergeQueue := AList.update k (q @ [d]) (mergeQueue s)\<rparr>"
    have m: "merge cfg k d s = (QueuePromise k, [], ?s1)"
      using Cons.prems False assms by (simp add: merge_def)
    have q1: "map_of (mergeQueue ?s1) k = Some (q @ [d])"
      by (simp add: update_conv')
    show ?thesis using Cons.IH[OF q1] m False by simp
  qed
qed

lemma merge_all_skippable: "isSkippable cfg k \<Longrightarrow> merge_all cfg k ds s = ([], s)"
proof (induction ds arbitrary: s)
  case Nil
  show ?case by simp
next
  case (Cons d ds)
  have "merge cfg k d s = ((if hasPendingMergeForKey s k then QueuePromise k else Resolved), [], s)"
    using Cons.prems by (simp add: merge_def)
  then show ?case using Cons.IH[OF Cons.prems, of s] by simp
qed

lemma merge_all_fresh:
  assumes "\<not> isSkippable cfg k"
  shows "map_of (mergeQueue s) k = None \<Longrightarrow>
    merge_all cfg k ds s =
      (if filter (\<lambda>d. d \<noteq> JUndefined) ds = [] then ([], s)
       else ([MergeFold k (fst (get k s))],
             (snd (get k s))\<lparr>mergeQueue := AList.update k (filter (\<lambda>d. d \<noteq> JUndefined) ds) (mergeQueue s),
                               mergeQueuePromise := List.insert k (mergeQueuePromise (snd (get k s)))\<rparr>))"
proof (induction ds arbitrary: s)
  case Nil
  show ?case by simp
next
  case (Cons d ds)
  show ?case
  proof (cases "d = JUndefined")
    case True
    then have "merge cfg k d s = (Resolved, [], s)"
      using Cons.prems by (simp add: merge_def hasPendingMergeForKey_def)
    then show ?thesis using Cons.IH[OF Cons.prems] True by simp
  next
    case False
    let ?s1 = "(snd (get k s))\<lparr>mergeQueue := AList.update k [d] (mergeQueue s),
                  mergeQueuePromise := List.insert k (mergeQueuePromise (snd (get k s)))\<rparr>"
    have m: "merge cfg k d s = (QueuePromise k, [MergeFold k (fst (get k s))], ?s1)"
      using Cons.prems False assms by (simp add: merge_def get_mergeQueue_update)
    have q1: "map_of (mergeQueue ?s1) k = Some [d]"
      by (simp add: update_conv')
    show ?thesis using merge_all_pending[OF assms q1, of ds] m False by simp
  qed
qed

lemma run_tasks_fold1: "run_tasks cfg [MergeFold k ex] s = snd (merge_fold k ex s)"
  by (simp add: run_tasks_def run_task_def)

lemma merge_coalescing_general:
  assumes "map_of (mergeQueue s) k = None"
      and "merge_all cfg k ds s = (ts, s1)"
      and "ts \<noteq> []"
  shows "ts = [MergeFold k (fst (get k s))]
       \<and> map_of (mergeQueue s1) k = Some (filter (\<lambda>d. d \<noteq> JUndefined) ds)
       \<and> storage_reads k (run_tasks cfg ts s1) \<le> storage_reads k s + 1
       \<and> storage_writes k (run_tasks cfg ts s1) \<le> storage_writes k s + 1"
proof -
  have ns: "\<not> isSkippable cfg k"
  proof
    assume "isSkippable cfg k"
    then have "merge_all cfg k ds s = ([], s)" by (rule merge_all_skippable)
    with assms(2,3) show False by simp
  qed
  let ?q = "filter (\<lambda>d. d \<noteq> JUndefined) ds"
  let ?s1 = "(snd (get k s))\<lparr>mergeQueue := AList.update k ?q (mergeQueue s),
                mergeQueuePromise := List.insert k (mergeQueuePromise (snd (get k s)))\<rparr>"
  note fresh = merge_all_fresh[OF ns assms(1), of ds]
  have ne: "?q \<noteq> []"
  proof
    assume "?q = []"
    with fresh have "merge_all cfg k ds s = ([], s)" by simp
    with assms(2,3) show False by simp
  qed
  with fresh have "merge_all cfg k ds s = ([MergeFold k (fst (get k s))], ?s1)"
    by simp
  with assms(2) have ts: "ts = [MergeFold k (fst (get k s))]" and s1: "s1 = ?s1"
    by simp_all
  have q: "map_of (mergeQueue s1) k = Some ?q"
    unfolding s1 by (simp add: update_conv')
  have "trace s1 = trace (snd (get k s))"
    unfolding s1 by simp
  then have r1: "storage_reads k s1 \<le> storage_reads k s + 1"
    and w1: "storage_writes k s1 = storage_writes k s"
    using get_reads[of k k s] get_writes[of k k s] by (simp_all add: storage_reads_def storage_writes_def)
  have r2: "storage_reads k (run_tasks cfg ts s1) = storage_reads k s1"
    unfolding ts run_tasks_fold1 by (rule merge_fold_reads)
  have w2: "storage_writes k (run_tasks cfg ts s1) \<le> storage_writes k s1 + 1"
    unfolding ts run_tasks_fold1 by (rule merge_fold_writes)
  have R: "storage_reads k (run_tasks cfg ts s1) \<le> storage_reads k s + 1"
    using r1 r2 by linarith
  have W: "storage_writes k (run_tasks cfg ts s1) \<le> storage_writes k s + 1"
    using w1 w2 by linarith
  show ?thesis using ts q R W by blast
qed


lemmas scenario_defs = emptyStore_def storeOf_def plainConfig_def skipConfig_def langConfig_def noSnapshots_def
  oneSnapshot_def

lemmas model_defs = merge_def merge_fold_def merge_write_def get_def emit_def cache_set_def cache_get_def cache_drop_def
  hasValueChanged_def hasPendingMergeForKey_def isSkippable_def splitCollectionMemberKey_def getCollectionKey_def
  isCompatible_def nullish_def lookup_def applyMerge_def shouldSetValue_def logIncompatible_def
  removeNullValues_def remove_def removeNestedNullValues_def broadcastUpdate_def Storage_mergeItem_def
  Storage_setItem_def Storage_removeItem_def storage_put_def storage_get_def scheduleSubscriberUpdate_def
  run_tasks_def run_task_def set_op_def Let_def

lemma s1_example:
  "(case merge_all plainConfig ''a'' [JObj [(''x'', JNum 1)], JObj [(''y'', JNum 2)], JObj [(''x'', JNum 3)]] emptyStore of
      (ts, s1) \<Rightarrow>
        filter isMergeItem (trace (run_tasks plainConfig ts s1))
          = [StorageMergeItem ''a'' (JObj [(''x'', JNum 3), (''y'', JNum 2)]) (JObj [(''x'', JNum 3), (''y'', JNum 2)]) True]
        \<and> cache_get (run_tasks plainConfig ts s1) ''a'' = JObj [(''x'', JNum 3), (''y'', JNum 2)])"
  by (simp add: model_defs scenario_defs)



text \<open>
  C1. Calls of \<open>merge\<close> on one key made before the continuation runs, from a store with
  no queue for the key: when they start a fold at all, they start exactly one, with the one
  value read by \<open>get\<close>; the queue holds every change that is not \<open>undefined\<close>, in the order
  of the calls; running the fold adds at most one storage read and at most one storage write
  of the key to what the store had seen before the calls. Scenario S1: from the empty store,
  the three merges of \<open>{x: 1}\<close>, \<open>{y: 2}\<close>, \<open>{x: 3}\<close> into \<open>a\<close> give one
  \<open>Storage.mergeItem\<close> call, with batched delta \<open>{x: 3, y: 2}\<close>, and the cached value
  \<open>{x: 3, y: 2}\<close>.
\<close>

theorem merge_coalescing:
  assumes "map_of (mergeQueue s) k = None"
      and "merge_all cfg k ds s = (ts, s1)"
      and "ts \<noteq> []"
  shows "ts = [MergeFold k (fst (get k s))]
       \<and> map_of (mergeQueue s1) k = Some (filter (\<lambda>d. d \<noteq> JUndefined) ds)
       \<and> storage_reads k (run_tasks cfg ts s1) \<le> storage_reads k s + 1
       \<and> storage_writes k (run_tasks cfg ts s1) \<le> storage_writes k s + 1
       \<and> (case merge_all plainConfig ''a'' [JObj [(''x'', JNum 1)], JObj [(''y'', JNum 2)], JObj [(''x'', JNum 3)]] emptyStore of
            (ts, s1) \<Rightarrow>
              filter isMergeItem (trace (run_tasks plainConfig ts s1))
                = [StorageMergeItem ''a'' (JObj [(''x'', JNum 3), (''y'', JNum 2)]) (JObj [(''x'', JNum 3), (''y'', JNum 2)]) True]
              \<and> cache_get (run_tasks plainConfig ts s1) ''a'' = JObj [(''x'', JNum 3), (''y'', JNum 2)])"
  using merge_coalescing_general[OF assms] s1_example by blast

theorem merge_coalescing_witness:
  "map_of (mergeQueue emptyStore) ''a'' = None
   \<and> merge_all plainConfig ''a'' [JObj [(''x'', JNum 1)], JObj [(''y'', JNum 2)]] emptyStore
       = ([MergeFold ''a'' JUndefined],
          emptyStore\<lparr>nullishStorageKeys := [''a''],
                      mergeQueue := [(''a'', [JObj [(''x'', JNum 1)], JObj [(''y'', JNum 2)]])],
                      mergeQueuePromise := [''a''],
                      trace := [StorageGetItem ''a'']\<rparr>)
   \<and> storage_writes ''a'' (run_tasks plainConfig [MergeFold ''a'' JUndefined]
          (emptyStore\<lparr>nullishStorageKeys := [''a''],
                      mergeQueue := [(''a'', [JObj [(''x'', JNum 1)], JObj [(''y'', JNum 2)]])],
                      mergeQueuePromise := [''a''],
                      trace := [StorageGetItem ''a'']\<rparr>)) \<le> storage_writes ''a'' emptyStore + 1"
proof -
  have q: "map_of (mergeQueue emptyStore) ''a'' = None"
    by (simp add: emptyStore_def)
  have m: "merge_all plainConfig ''a'' [JObj [(''x'', JNum 1)], JObj [(''y'', JNum 2)]] emptyStore
       = ([MergeFold ''a'' JUndefined],
          emptyStore\<lparr>nullishStorageKeys := [''a''],
                      mergeQueue := [(''a'', [JObj [(''x'', JNum 1)], JObj [(''y'', JNum 2)]])],
                      mergeQueuePromise := [''a''],
                      trace := [StorageGetItem ''a'']\<rparr>)"
    by (simp add: model_defs scenario_defs)
  show ?thesis using merge_coalescing[OF q m] q m by simp
qed

lemma isSkippable_r42: "isSkippable skipConfig ''r_42''"
  by (simp add: isSkippable_def skipConfig_def splitCollectionMemberKey_def getCollectionKey_def)

lemma not_isSkippable_plain: "\<not> isSkippable plainConfig k"
  by (simp add: isSkippable_def plainConfig_def)

text \<open>
  C9, as stated, fails on a skippable member key: \<open>set\<close> coerces the value to \<open>null\<close> before
  it tests for \<open>undefined\<close>, so \<open>set("r_42", undefined)\<close> with skippable member id \<open>42\<close>
  removes the cached key from cache and storage and notifies the subscribers.
\<close>

theorem set_undefined_skippable_counterexample:
  "set_op skipConfig ''r_42'' JUndefined (storeOf [(''r_42'', JObj [(''a'', JNum 1)])])
     = (Resolved,
        emptyStore\<lparr>trace := [SubscriberUpdate ''r_42'' JUndefined (JObj [(''a'', JNum 1)]),
                              StorageRemoveItem ''r_42'', LogInfo ''set'']\<rparr>)"
  by (simp add: set_op_def Let_def isSkippable_r42 storeOf_def emptyStore_def hasPendingMergeForKey_def
        cache_get_def isCompatible_def nullish_def removeNullValues_def remove_def Storage_removeItem_def
        emit_def scheduleSubscriberUpdate_def cache_drop_def lookup_def)

text \<open>
  C9, amended: for every key that is not a skippable collection member, \<open>set(K, undefined)\<close>
  returns a resolved promise and leaves the cache, the storage and the trace of calls to the
  subscribers, the storage driver and the logger as they were.
\<close>

theorem set_undefined_noop:
  assumes "\<not> isSkippable cfg k"
  shows "fst (set_op cfg k JUndefined s) = Resolved
       \<and> cache (snd (set_op cfg k JUndefined s)) = cache s
       \<and> storage (snd (set_op cfg k JUndefined s)) = storage s
       \<and> trace (snd (set_op cfg k JUndefined s)) = trace s"
  using assms by (simp add: set_op_def Let_def)

theorem set_undefined_noop_witness:
  "\<not> isSkippable skipConfig ''a''
   \<and> fst (set_op skipConfig ''a'' JUndefined (storeOf [(''a'', JNum 1)])) = Resolved
   \<and> cache (snd (set_op skipConfig ''a'' JUndefined (storeOf [(''a'', JNum 1)]))) = [(''a'', JNum 1)]
   \<and> storage (snd (set_op skipConfig ''a'' JUndefined (storeOf [(''a'', JNum 1)]))) = [(''a'', JNum 1)]
   \<and> trace (snd (set_op skipConfig ''a'' JUndefined (storeOf [(''a'', JNum 1)]))) = []"
proof -
  have n: "\<not> isSkippable skipConfig ''a''"
    by (simp add: isSkippable_def skipConfig_def splitCollectionMemberKey_def getCollectionKey_def)
  show ?thesis
    using set_undefined_noop[OF n, of "storeOf [(''a'', JNum 1)]"] n
    by (simp add: storeOf_def emptyStore_def)
qed































lemma update_append: "k \<notin> fst ` set al \<Longrightarrow> AList.update k v al = al @ [(k, v)]"
  by (induction al) auto

lemma foldl_delete_filter: "foldl (\<lambda>q k. AList.delete k q) q ks = filter (\<lambda>(k, ops). k \<notin> set ks) q"
proof (induction ks arbitrary: q)
  case Nil
  show ?case by simp
next
  case (Cons k ks)
  have "filter (\<lambda>(k', ops). k' \<notin> set ks) (AList.delete k q) = filter (\<lambda>(k', ops). k' \<notin> set (k # ks)) q"
    by (induction q) (auto simp: AList.delete_eq)
  then show ?case using Cons.IH[of "AList.delete k q"] by simp
qed

lemma queuedOps_delete: "k' \<noteq> k \<Longrightarrow> queuedOps (AList.delete k q) k' = queuedOps q k'"
  by (simp add: queuedOps_def delete_conv')

lemma batch_fold:
  assumes "distinct ks" "fst ` set M \<inter> set ks = {}" "fst ` set S \<inter> set ks = {}"
  shows "foldl batch_step (q, M, S) ks =
     (foldl (\<lambda>q k. AList.delete k q) q ks,
      M @ map (\<lambda>k. (k, applyMerge JUndefined (queuedOps q k) False)) (filter (\<lambda>k. \<not> firstIsNull (queuedOps q k)) ks),
      S @ map (\<lambda>k. (k, applyMerge JUndefined (queuedOps q k) False)) (filter (\<lambda>k. firstIsNull (queuedOps q k)) ks))"
  using assms
proof (induction ks arbitrary: q M S)
  case Nil
  show ?case by simp
next
  case (Cons k ks)
  let ?v = "applyMerge JUndefined (queuedOps q k) False"
  let ?q = "AList.delete k q"
  have kM: "k \<notin> fst ` set M" and kS: "k \<notin> fst ` set S" and kks: "k \<notin> set ks" and d: "distinct ks"
    using Cons.prems by auto
  have same: "\<And>k'. k' \<in> set ks \<Longrightarrow> queuedOps ?q k' = queuedOps q k'"
  proof -
    fix k' assume "k' \<in> set ks"
    then have "k' \<noteq> k" using kks by auto
    then show "queuedOps ?q k' = queuedOps q k'" by (rule queuedOps_delete)
  qed
  have mapM: "map (\<lambda>k. (k, applyMerge JUndefined (queuedOps ?q k) False)) (filter (\<lambda>k. \<not> firstIsNull (queuedOps ?q k)) ks)
      = map (\<lambda>k. (k, applyMerge JUndefined (queuedOps q k) False)) (filter (\<lambda>k. \<not> firstIsNull (queuedOps q k)) ks)"
    using same by (induction ks) auto
  have mapS: "map (\<lambda>k. (k, applyMerge JUndefined (queuedOps ?q k) False)) (filter (\<lambda>k. firstIsNull (queuedOps ?q k)) ks)
      = map (\<lambda>k. (k, applyMerge JUndefined (queuedOps q k) False)) (filter (\<lambda>k. firstIsNull (queuedOps q k)) ks)"
    using same by (induction ks) auto
  show ?case
  proof (cases "firstIsNull (queuedOps q k)")
    case True
    have step: "batch_step (q, M, S) k = (?q, M, S @ [(k, ?v)])"
      using True kS by (simp add: batch_step_def queuedOps_def Let_def update_append)
    have dj: "fst ` set M \<inter> set ks = {}" "fst ` set (S @ [(k, ?v)]) \<inter> set ks = {}"
      using Cons.prems kks by auto
    show ?thesis
      using Cons.IH[OF d dj, of ?q] step True mapM mapS by simp
  next
    case False
    have step: "batch_step (q, M, S) k = (?q, M @ [(k, ?v)], S)"
      using False kM by (simp add: batch_step_def queuedOps_def Let_def update_append)
    have dj: "fst ` set (M @ [(k, ?v)]) \<inter> set ks = {}" "fst ` set S \<inter> set ks = {}"
      using Cons.prems kks by auto
    show ?thesis
      using Cons.IH[OF d dj, of ?q] step False mapM mapS by simp
  qed
qed

lemma entries_by_key:
  assumes "distinct (map fst q)" "set xs \<subseteq> set q"
  shows "map (\<lambda>k. (k, g (queuedOps q k))) (filter (\<lambda>k. P (queuedOps q k)) (filter m (map fst xs)))
       = map (\<lambda>(k, ops). (k, g ops)) (filter (\<lambda>(k, ops). m k \<and> P ops) xs)"
  using assms(2)
proof (induction xs)
  case Nil
  show ?case by simp
next
  case (Cons x xs)
  obtain k ops where x: "x = (k, ops)" by (cases x)
  then have "map_of q k = Some ops" using Cons.prems assms(1) by simp
  then have "queuedOps q k = ops" by (simp add: queuedOps_def)
  then show ?case using Cons x by simp
qed

lemma collapse_step_batched:
  assumes "distinct (map fst updateQueue)"
      and "2 \<le> length (filter (isKeyMatch collectionKey) (map fst updateQueue))"
  shows "collapse_step (updateQueue, promises) collectionKey =
     (filter (\<lambda>(k, ops). \<not> isKeyMatch collectionKey k) updateQueue,
      promises
        @ (if filter (\<lambda>(k, ops). isKeyMatch collectionKey k \<and> \<not> firstIsNull ops) updateQueue \<noteq> []
           then [CallMergeCollection collectionKey
                   (JObj (map (\<lambda>(k, ops). (k, applyMerge JUndefined ops False))
                            (filter (\<lambda>(k, ops). isKeyMatch collectionKey k \<and> \<not> firstIsNull ops) updateQueue)))]
           else [])
        @ (if filter (\<lambda>(k, ops). isKeyMatch collectionKey k \<and> firstIsNull ops) updateQueue \<noteq> []
           then [CallMultiSet
                   (map (\<lambda>(k, ops). (k, applyMerge JUndefined ops False))
                      (filter (\<lambda>(k, ops). isKeyMatch collectionKey k \<and> firstIsNull ops) updateQueue))]
           else []))"
proof -
  let ?items = "filter (isKeyMatch collectionKey) (map fst updateQueue)"
  have d: "distinct ?items" using assms(1) by simp
  have f: "foldl batch_step (updateQueue, [], []) ?items =
     (foldl (\<lambda>q k. AList.delete k q) updateQueue ?items,
      [] @ map (\<lambda>k. (k, applyMerge JUndefined (queuedOps updateQueue k) False))
             (filter (\<lambda>k. \<not> firstIsNull (queuedOps updateQueue k)) ?items),
      [] @ map (\<lambda>k. (k, applyMerge JUndefined (queuedOps updateQueue k) False))
             (filter (\<lambda>k. firstIsNull (queuedOps updateQueue k)) ?items))"
    by (rule batch_fold[OF d]) simp_all
  have q: "foldl (\<lambda>q k. AList.delete k q) updateQueue ?items
       = filter (\<lambda>(k, ops). \<not> isKeyMatch collectionKey k) updateQueue"
    unfolding foldl_delete_filter by (rule filter_cong) (auto simp: rev_image_eqI)
  have M: "map (\<lambda>k. (k, applyMerge JUndefined (queuedOps updateQueue k) False))
             (filter (\<lambda>k. \<not> firstIsNull (queuedOps updateQueue k)) ?items)
       = map (\<lambda>(k, ops). (k, applyMerge JUndefined ops False))
           (filter (\<lambda>(k, ops). isKeyMatch collectionKey k \<and> \<not> firstIsNull ops) updateQueue)"
    by (rule entries_by_key[OF assms(1)]) simp
  have S: "map (\<lambda>k. (k, applyMerge JUndefined (queuedOps updateQueue k) False))
             (filter (\<lambda>k. firstIsNull (queuedOps updateQueue k)) ?items)
       = map (\<lambda>(k, ops). (k, applyMerge JUndefined ops False))
           (filter (\<lambda>(k, ops). isKeyMatch collectionKey k \<and> firstIsNull ops) updateQueue)"
    by (rule entries_by_key[OF assms(1)]) simp
  have n: "\<not> length ?items \<le> 1" using assms(2) by simp
  show ?thesis
    unfolding collapse_step_def Let_def prod.case if_not_P[OF n] f q M S append_Nil
    by simp
qed


lemma enqueueSetOperation_distinct:
  "distinct (map fst q) \<Longrightarrow> distinct (map fst (enqueueSetOperation k v q))"
  by (simp add: enqueueSetOperation_def distinct_update)

lemma enqueueMergeOperation_distinct:
  "distinct (map fst q) \<Longrightarrow> distinct (map fst (enqueueMergeOperation k v q))"
  by (simp add: enqueueMergeOperation_def distinct_update split: option.splits)

text \<open>
  C5, as stated, fails on its own scenario: \<open>mergeCollection\<close> has no set portion. For S5 with
  collection prefix \<open>r_\<close>, \<open>update\<close> defers \<open>mergeCollection("r_", {r_2: {a: 2}})\<close> and a
  separate \<open>multiSet({r_1: {a: 9}})\<close>; the key \<open>r_1\<close>, whose first queued operation is
  \<open>null\<close>, is not in the \<open>mergeCollection\<close> call.
\<close>

theorem update_collapse_counterexample:
  "update plainConfig noSnapshots
     [OnyxUpdate MERGE (JStr ''r_1'') (JObj [(''a'', JNum 1)]),
      OnyxUpdate MERGE (JStr ''r_2'') (JObj [(''a'', JNum 2)]),
      OnyxUpdate SET (JStr ''r_1'') (JObj [(''a'', JNum 9)])]
     emptyStore
   = (Inr [CallMergeCollection ''r_'' (JObj [(''r_2'', JObj [(''a'', JNum 2)])]),
           CallMultiSet [(''r_1'', JObj [(''a'', JNum 9)])]],
      [], emptyStore)"
  by (simp add: update_def update_promises_def List.map_filter_def validate_def handler_def keyOf_def
        enqueueSetOperation_def enqueueMergeOperation_def collapse_step_def batch_step_def
        isKeyMatch_def firstIsNull_def applyMerge_def lookup_def perKey_def Let_def scenario_defs)

text \<open>
  C5, amended: for a declared collection prefix with at least 2 queued keys matching it, the
  collapse removes those keys from the per-key update queue and leaves the other keys as they
  are; the matching keys whose first queued operation is not \<open>null\<close> are folded, each to
  \<open>applyMerge(undefined, operations, false)\<close>, into one \<open>mergeCollection\<close> call for the
  prefix; those whose first queued operation is \<open>null\<close> are folded into one \<open>multiSet\<close>
  call; a call that would be empty is not made. The keys of the queue are distinct, as those
  of an object are.
\<close>

theorem update_collapse:
  assumes "distinct (map fst updateQueue)"
      and "2 \<le> length (filter (isKeyMatch collectionKey) (map fst updateQueue))"
  shows "collapse_step (updateQueue, promises) collectionKey =
     (filter (\<lambda>(k, ops). \<not> isKeyMatch collectionKey k) updateQueue,
      promises
        @ (if filter (\<lambda>(k, ops). isKeyMatch collectionKey k \<and> \<not> firstIsNull ops) updateQueue \<noteq> []
           then [CallMergeCollection collectionKey
                   (JObj (map (\<lambda>(k, ops). (k, applyMerge JUndefined ops False))
                            (filter (\<lambda>(k, ops). isKeyMatch collectionKey k \<and> \<not> firstIsNull ops) updateQueue)))]
           else [])
        @ (if filter (\<lambda>(k, ops). isKeyMatch collectionKey k \<and> firstIsNull ops) updateQueue \<noteq> []
           then [CallMultiSet
                   (map (\<lambda>(k, ops). (k, applyMerge JUndefined ops False))
                      (filter (\<lambda>(k, ops). isKeyMatch collectionKey k \<and> firstIsNull ops) updateQueue))]
           else []))"
  using assms by (rule collapse_step_batched)

theorem update_collapse_witness:
  "distinct (map fst [(''r_1'', [JNull, JObj [(''a'', JNum 9)]]), (''r_2'', [JObj [(''a'', JNum 2)]]), (''other'', [JNum 1])])
   \<and> 2 \<le> length (filter (isKeyMatch ''r_'')
                  (map fst [(''r_1'', [JNull, JObj [(''a'', JNum 9)]]), (''r_2'', [JObj [(''a'', JNum 2)]]), (''other'', [JNum 1])]))
   \<and> collapse_step ([(''r_1'', [JNull, JObj [(''a'', JNum 9)]]), (''r_2'', [JObj [(''a'', JNum 2)]]), (''other'', [JNum 1])], [])
        ''r_''
      = ([(''other'', [JNum 1])],
         [CallMergeCollection ''r_'' (JObj [(''r_2'', JObj [(''a'', JNum 2)])]),
          CallMultiSet [(''r_1'', JObj [(''a'', JNum 9)])]])"
proof -
  let ?q = "[(''r_1'', [JNull, JObj [(''a'', JNum 9)]]), (''r_2'', [JObj [(''a'', JNum 2)]]), (''other'', [JNum 1])]"
  have h1: "distinct (map fst ?q)" by simp
  have h2: "2 \<le> length (filter (isKeyMatch ''r_'') (map fst ?q))"
    by (simp add: isKeyMatch_def)
  show ?thesis
    using update_collapse[OF h1 h2, of "[]"] h1 h2
    by (simp add: isKeyMatch_def firstIsNull_def applyMerge_def lookup_def)
qed






lemma lookup_absent: "k \<notin> fst ` set al \<Longrightarrow> lookup al k = JUndefined"
  by (simp add: lookup_def map_of_eq_None_iff[THEN iffD2])

lemma set_uniq [simp]: "set (uniq xs) = set xs"
  by (simp add: uniq_def)

lemma set_getAllKeys: "set (getAllKeys s) = fst ` set (storage s) \<union> fst ` set (cache s)"
  by (simp add: getAllKeys_def)

lemma strictEq_eq: "strictEq a b \<Longrightarrow> a = b"
  by (cases a) (simp_all add: strictEq_def)

lemma coalesce_defined: "coalesce a JNull \<noteq> JUndefined"
  by (simp add: coalesce_def nullish_def)

lemma lookup_foldl_delete:
  "lookup (foldl (\<lambda>al k. AList.delete k al) al ks) k = (if k \<in> set ks then JUndefined else lookup al k)"
  by (induction ks arbitrary: al) auto

lemma put_fold_lookup:
  "distinct (map fst pairs) \<Longrightarrow>
     lookup (foldl (\<lambda>st (k, v). storage_put k v st) st pairs) k
       = (case map_of pairs k of
            None \<Rightarrow> lookup st k
          | Some v \<Rightarrow> if nullish v then JUndefined else v)"
proof (induction pairs arbitrary: st)
  case Nil
  show ?case by simp
next
  case (Cons p pairs)
  obtain k' v' where p: "p = (k', v')" by (cases p)
  have d: "distinct (map fst pairs)" and nk: "k' \<notin> fst ` set pairs"
    using Cons.prems p by auto
  have none: "k = k' \<Longrightarrow> map_of pairs k = None"
    using nk by (simp add: map_of_eq_None_iff)
  show ?case
    using Cons.IH[OF d, of "storage_put k' v' st"] p none
    by (auto simp: storage_put_def split: option.splits)
qed

lemma build_fold:
  "map_of (foldl (\<lambda>obj k. AList.update k (g k) obj) obj0 ks) k
     = (if k \<in> set ks then Some (g k) else map_of obj0 k)"
  by (induction ks arbitrary: obj0) (auto simp: update_conv')

lemma build_fold_distinct:
  "distinct (map fst obj0) \<Longrightarrow> distinct (map fst (foldl (\<lambda>obj k. AList.update k (g k) obj) obj0 ks))"
  by (induction ks arbitrary: obj0) (auto simp: distinct_update)

lemma clear_step_cache:
  "cache_get (fst (clear_step cfg P acc x)) k
     = (if k = x \<and> x \<notin> set P then coalesce (lookup (defaultKeyStates cfg) x) JNull
        else cache_get (fst acc) k)"
proof -
  obtain s c a i where acc: "acc = (s, c, a, i)" by (cases acc)
  let ?new = "coalesce (lookup (defaultKeyStates cfg) x) JNull"
  have e: "strictEq ?new (cache_get s x) \<Longrightarrow> cache_get s x = ?new"
    using strictEq_eq by fastforce
  show ?thesis
    using e coalesce_defined[of "lookup (defaultKeyStates cfg) x"]
    by (auto simp: acc clear_step_def Let_def cache_get_def)
qed

lemma clear_step_frame:
  "storage (fst (clear_step cfg P acc x)) = storage (fst acc)"
  "trace (fst (clear_step cfg P acc x)) = trace (fst acc)"
  by (cases acc; simp add: clear_step_def Let_def)+

lemma clear_step_cleared:
  "fst (snd (clear_step cfg P acc x))
     = fst (snd acc) @ (if x \<notin> set P \<and> x \<notin> fst ` set (defaultKeyStates cfg) then [x] else [])"
  by (cases acc) (simp add: clear_step_def Let_def)

lemma clear_fold_cache:
  "cache_get (fst (foldl (clear_step cfg P) acc ks)) k
     = (if k \<in> set ks \<and> k \<notin> set P then coalesce (lookup (defaultKeyStates cfg) k) JNull
        else cache_get (fst acc) k)"
  by (induction ks arbitrary: acc) (auto simp: clear_step_cache)

lemma clear_fold_frame:
  "storage (fst (foldl (clear_step cfg P) acc ks)) = storage (fst acc)"
  "trace (fst (foldl (clear_step cfg P) acc ks)) = trace (fst acc)"
  by (induction ks arbitrary: acc) (auto simp: clear_step_frame)

lemma clear_fold_cleared:
  "fst (snd (foldl (clear_step cfg P) acc ks))
     = fst (snd acc) @ filter (\<lambda>x. x \<notin> set P \<and> x \<notin> fst ` set (defaultKeyStates cfg)) ks"
  by (induction ks arbitrary: acc) (auto simp: clear_step_cleared)

lemma notify_individually_frame:
  "cache (foldl (\<lambda>st (k, v). scheduleSubscriberUpdate k v (cache_get st k) st) s xs) = cache s"
  "storage (foldl (\<lambda>st (k, v). scheduleSubscriberUpdate k v (cache_get st k) st) s xs) = storage s"
  by (induction xs arbitrary: s) auto

lemma notify_collection_frame:
  "cache (foldl (\<lambda>st (ck, members). scheduleNotifyCollectionSubscribers ck members p st) s xs) = cache s"
  "storage (foldl (\<lambda>st (ck, members). scheduleNotifyCollectionSubscribers ck members p st) s xs) = storage s"
  by (induction xs arbitrary: s) auto

lemma drop_fold:
  "cache (foldl (\<lambda>st k. cache_drop k st) s ks) = foldl (\<lambda>al k. AList.delete k al) (cache s) ks"
  "storage (foldl (\<lambda>st k. cache_drop k st) s ks) = storage s"
  by (induction ks arbitrary: s) auto

lemma clear_body_cache:
  "cache_get (clear_body cfg P cachedKeys s) k
     = (if k \<in> set cachedKeys \<union> fst ` set (defaultKeyStates cfg) \<and> k \<notin> set P
        then (if k \<in> fst ` set (defaultKeyStates cfg) then coalesce (lookup (defaultKeyStates cfg) k) JNull
              else JUndefined)
        else cache_get s k)"
proof -
  let ?ks = "uniq (cachedKeys @ map fst (defaultKeyStates cfg))"
  let ?acc0 = "(clearNullishStorageKeys s, [], [], [])"
  obtain s1 cl asC ind where f: "foldl (clear_step cfg P) ?acc0 ?ks = (s1, cl, asC, ind)"
    by (cases "foldl (clear_step cfg P) ?acc0 ?ks") auto
  have c1: "cache_get s1 k = (if k \<in> set ?ks \<and> k \<notin> set P
                               then coalesce (lookup (defaultKeyStates cfg) k) JNull else cache_get s k)"
    using clear_fold_cache[of cfg P ?acc0 ?ks k] f
    by (simp add: clearNullishStorageKeys_def cache_get_def)
  have cl: "cl = filter (\<lambda>x. x \<notin> set P \<and> x \<notin> fst ` set (defaultKeyStates cfg)) ?ks"
    using clear_fold_cleared[of cfg P ?acc0 ?ks] f by simp
  have "cache (clear_body cfg P cachedKeys s) = foldl (\<lambda>al k. AList.delete k al) (cache s1) cl"
    by (simp add: clear_body_def Let_def f drop_fold notify_individually_frame notify_collection_frame)
  then have "cache_get (clear_body cfg P cachedKeys s) k = (if k \<in> set cl then JUndefined else cache_get s1 k)"
    by (simp add: cache_get_def lookup_foldl_delete)
  then show ?thesis using c1 cl by auto
qed

lemma clear_body_storage:
  "storage_get (clear_body cfg P cachedKeys s) k
     = (if k \<in> fst ` set (defaultKeyStates cfg) \<and> k \<notin> set P
        then (if nullish (lookup (defaultKeyStates cfg) k) then JUndefined else lookup (defaultKeyStates cfg) k)
        else if k \<in> set cachedKeys \<and> k \<notin> set P \<and> k \<notin> fst ` set (defaultKeyStates cfg) then JUndefined
        else storage_get s k)"
proof -
  let ?ks = "uniq (cachedKeys @ map fst (defaultKeyStates cfg))"
  let ?acc0 = "(clearNullishStorageKeys s, [], [], [])"
  let ?dp = "foldl (\<lambda>obj k. AList.update k (lookup (defaultKeyStates cfg) k) obj) []
               (filter (\<lambda>k. k \<notin> set P) (map fst (defaultKeyStates cfg)))"
  obtain s1 cl asC ind where f: "foldl (clear_step cfg P) ?acc0 ?ks = (s1, cl, asC, ind)"
    by (cases "foldl (clear_step cfg P) ?acc0 ?ks") auto
  have st1: "storage s1 = storage s"
    using clear_fold_frame(1)[of cfg P ?acc0 ?ks] f by (simp add: clearNullishStorageKeys_def)
  have cl: "cl = filter (\<lambda>x. x \<notin> set P \<and> x \<notin> fst ` set (defaultKeyStates cfg)) ?ks"
    using clear_fold_cleared[of cfg P ?acc0 ?ks] f by simp
  have dpd: "distinct (map fst ?dp)"
    by (rule build_fold_distinct) simp
  have dpm: "map_of ?dp k = (if k \<in> fst ` set (defaultKeyStates cfg) \<and> k \<notin> set P
                              then Some (lookup (defaultKeyStates cfg) k) else None)"
    by (auto simp: build_fold)
  have "storage (clear_body cfg P cachedKeys s)
      = foldl (\<lambda>st (k, v). storage_put k v st) (foldl (\<lambda>st k. AList.delete k st) (storage s) cl) ?dp"
    by (simp add: clear_body_def Let_def f drop_fold notify_individually_frame notify_collection_frame st1)
  then have "storage_get (clear_body cfg P cachedKeys s) k
      = (case map_of ?dp k of
           None \<Rightarrow> (if k \<in> set cl then JUndefined else storage_get s k)
         | Some v \<Rightarrow> if nullish v then JUndefined else v)"
    by (simp add: storage_get_def put_fold_lookup[OF dpd] lookup_foldl_delete split: option.splits)
  then show ?thesis unfolding dpm using cl by auto
qed

lemma clear_s4_example:
  "cache (run_tasks langConfig
            (fst (snd (clear [''pref''] (storeOf [(''lang'', JStr ''fr''), (''session'', JStr ''t''), (''pref'', JStr ''dark'')]))))
            (storeOf [(''lang'', JStr ''fr''), (''session'', JStr ''t''), (''pref'', JStr ''dark'')]))
     = [(''lang'', JStr ''en''), (''pref'', JStr ''dark'')]"
  by (simp add: run_tasks_def run_task_def clear_def getAllKeys_def clear_body_def clear_step_def uniq_def
        clearNullishStorageKeys_def coalesce_def nullish_def strictEq_def getCollectionKey_def cache_get_def
        cache_set_def cache_drop_def lookup_def scheduleSubscriberUpdate_def Storage_removeItems_def
        Storage_multiSet_def storage_put_def emit_def Let_def scenario_defs)

text \<open>
  C3. \<open>clear(keysToPreserve)\<close>, run to completion on the store on which it is called:
  a key listed in \<open>keysToPreserve\<close> keeps its cached and its stored value; a key that is not
  listed and has a default state has its default value in the cache (\<open>null\<close> for a nullish
  default) and in storage (where a nullish value is absence); every other key has no value
  in the cache and none in storage. Scenario S4: with defaults \<open>{lang: "en"}\<close> and cache
  \<open>{lang: "fr", session: "t", pref: "dark"}\<close>, \<open>clear(["pref"])\<close> leaves the cache
  \<open>{lang: "en", pref: "dark"}\<close>.
\<close>

theorem clear_preserves_resets_removes:
  "(k \<in> set keysToPreserve \<longrightarrow>
      cache_get (run_tasks cfg (fst (snd (clear keysToPreserve s))) s) k = cache_get s k
      \<and> storage_get (run_tasks cfg (fst (snd (clear keysToPreserve s))) s) k = storage_get s k)
   \<and> (k \<notin> set keysToPreserve \<and> map_of (defaultKeyStates cfg) k = Some d \<longrightarrow>
      cache_get (run_tasks cfg (fst (snd (clear keysToPreserve s))) s) k = coalesce d JNull
      \<and> storage_get (run_tasks cfg (fst (snd (clear keysToPreserve s))) s) k
          = (if nullish d then JUndefined else d))
   \<and> (k \<notin> set keysToPreserve \<and> map_of (defaultKeyStates cfg) k = None \<longrightarrow>
      cache_get (run_tasks cfg (fst (snd (clear keysToPreserve s))) s) k = JUndefined
      \<and> storage_get (run_tasks cfg (fst (snd (clear keysToPreserve s))) s) k = JUndefined)
   \<and> cache (run_tasks langConfig
            (fst (snd (clear [''pref''] (storeOf [(''lang'', JStr ''fr''), (''session'', JStr ''t''), (''pref'', JStr ''dark'')]))))
            (storeOf [(''lang'', JStr ''fr''), (''session'', JStr ''t''), (''pref'', JStr ''dark'')]))
     = [(''lang'', JStr ''en''), (''pref'', JStr ''dark'')]"
proof -
  let ?s' = "run_tasks cfg (fst (snd (clear keysToPreserve s))) s"
  have r: "?s' = clear_body cfg keysToPreserve (getAllKeys s) s"
    by (simp add: run_tasks_def run_task_def clear_def)
  have a: "k \<in> set keysToPreserve \<longrightarrow> cache_get ?s' k = cache_get s k \<and> storage_get ?s' k = storage_get s k"
    unfolding r by (simp add: clear_body_cache clear_body_storage)
  have b: "k \<notin> set keysToPreserve \<and> map_of (defaultKeyStates cfg) k = Some d \<longrightarrow>
      cache_get ?s' k = coalesce d JNull \<and> storage_get ?s' k = (if nullish d then JUndefined else d)"
  proof
    assume h: "k \<notin> set keysToPreserve \<and> map_of (defaultKeyStates cfg) k = Some d"
    then have "k \<in> fst ` set (defaultKeyStates cfg)" and "lookup (defaultKeyStates cfg) k = d"
      by (auto simp: lookup_def dest: map_of_SomeD intro: rev_image_eqI)
    then show "cache_get ?s' k = coalesce d JNull \<and> storage_get ?s' k = (if nullish d then JUndefined else d)"
      unfolding r using h by (simp add: clear_body_cache clear_body_storage)
  qed
  have c: "k \<notin> set keysToPreserve \<and> map_of (defaultKeyStates cfg) k = None \<longrightarrow>
      cache_get ?s' k = JUndefined \<and> storage_get ?s' k = JUndefined"
  proof
    assume h: "k \<notin> set keysToPreserve \<and> map_of (defaultKeyStates cfg) k = None"
    then have nd: "k \<notin> fst ` set (defaultKeyStates cfg)"
      by (simp add: map_of_eq_None_iff)
    show "cache_get ?s' k = JUndefined \<and> storage_get ?s' k = JUndefined"
    proof (cases "k \<in> set (getAllKeys s)")
      case True
      then show ?thesis unfolding r using h nd by (simp add: clear_body_cache clear_body_storage)
    next
      case False
      then have "cache_get s k = JUndefined" "storage_get s k = JUndefined"
        by (simp_all add: set_getAllKeys cache_get_def storage_get_def lookup_absent)
      then show ?thesis unfolding r using h nd False by (simp add: clear_body_cache clear_body_storage)
    qed
  qed
  show ?thesis using a b c clear_s4_example by blast
qed

theorem clear_preserves_resets_removes_witness:
  "''pref'' \<in> set [''pref'']
   \<and> ''lang'' \<notin> set [''pref''] \<and> map_of (defaultKeyStates langConfig) ''lang'' = Some (JStr ''en'')
   \<and> ''session'' \<notin> set [''pref''] \<and> map_of (defaultKeyStates langConfig) ''session'' = None
   \<and> storage_get (run_tasks langConfig
        (fst (snd (clear [''pref''] (storeOf [(''lang'', JStr ''fr''), (''session'', JStr ''t''), (''pref'', JStr ''dark'')]))))
        (storeOf [(''lang'', JStr ''fr''), (''session'', JStr ''t''), (''pref'', JStr ''dark'')])) ''pref'' = JStr ''dark''
   \<and> storage_get (run_tasks langConfig
        (fst (snd (clear [''pref''] (storeOf [(''lang'', JStr ''fr''), (''session'', JStr ''t''), (''pref'', JStr ''dark'')]))))
        (storeOf [(''lang'', JStr ''fr''), (''session'', JStr ''t''), (''pref'', JStr ''dark'')])) ''lang'' = JStr ''en''
   \<and> storage_get (run_tasks langConfig
        (fst (snd (clear [''pref''] (storeOf [(''lang'', JStr ''fr''), (''session'', JStr ''t''), (''pref'', JStr ''dark'')]))))
        (storeOf [(''lang'', JStr ''fr''), (''session'', JStr ''t''), (''pref'', JStr ''dark'')])) ''session'' = JUndefined"
proof -
  let ?s = "storeOf [(''lang'', JStr ''fr''), (''session'', JStr ''t''), (''pref'', JStr ''dark'')]"
  have h1: "''pref'' \<in> set [''pref'']" by simp
  have h2: "''lang'' \<notin> set [''pref''] \<and> map_of (defaultKeyStates langConfig) ''lang'' = Some (JStr ''en'')"
    by (simp add: langConfig_def)
  have h3: "''session'' \<notin> set [''pref''] \<and> map_of (defaultKeyStates langConfig) ''session'' = None"
    by (simp add: langConfig_def)
  have v: "storage_get ?s ''pref'' = JStr ''dark''"
    by (simp add: storage_get_def lookup_def scenario_defs)
  note t1 = clear_preserves_resets_removes[of "''pref''" "[''pref'']" langConfig ?s "JStr ''en''"]
  note t2 = clear_preserves_resets_removes[of "''lang''" "[''pref'']" langConfig ?s "JStr ''en''"]
  note t3 = clear_preserves_resets_removes[of "''session''" "[''pref'']" langConfig ?s "JStr ''en''"]
  have p1: "storage_get (run_tasks langConfig (fst (snd (clear [''pref''] ?s))) ?s) ''pref'' = JStr ''dark''"
    using t1 h1 v by simp
  have p2: "storage_get (run_tasks langConfig (fst (snd (clear [''pref''] ?s))) ?s) ''lang'' = JStr ''en''"
    using t2 h2 by (simp add: nullish_def)
  have p3: "storage_get (run_tasks langConfig (fst (snd (clear [''pref''] ?s))) ?s) ''session'' = JUndefined"
    using t3 h3 by simp
  show ?thesis using h1 h2 h3 p1 p2 p3 by blast
qed

lemma not_belong_not_nullish:
  "\<not> doAllCollectionItemsBelongToSameParent collectionKey (map fst (objectEntries collection))
     \<Longrightarrow> \<not> nullish collection"
  by (auto simp: nullish_def doAllCollectionItemsBelongToSameParent_def)

text \<open>
  C10. \<open>mergeCollection\<close> called with a collection that is not a non-empty object, and
  \<open>mergeCollection\<close> or \<open>setCollection\<close> called with a collection one of whose keys is not
  a member of the collection key: the call returns a resolved promise, without throwing;
  it schedules no continuation; the cache and the storage are as they were; what it adds to
  the trace, if anything, are calls of the logger.
\<close>

theorem collection_calls_rejected:
  "(\<not> isValidNonEmptyCollectionForMerge collection
      \<or> \<not> doAllCollectionItemsBelongToSameParent collectionKey (map fst (objectEntries collection))
    \<longrightarrow> (\<exists>evs. mergeCollection cfg collectionKey collection s = (Resolved, [], s\<lparr>trace := trace s @ evs\<rparr>)
               \<and> list_all isLog evs))
   \<and> (\<not> doAllCollectionItemsBelongToSameParent collectionKey (map fst (objectEntries collection))
    \<longrightarrow> (\<exists>evs. setCollection cfg collectionKey collection s = Inr (Resolved, [], s\<lparr>trace := trace s @ evs\<rparr>)
               \<and> list_all isLog evs))"
proof -
  have a: "\<not> isValidNonEmptyCollectionForMerge collection
      \<or> \<not> doAllCollectionItemsBelongToSameParent collectionKey (map fst (objectEntries collection))
    \<longrightarrow> (\<exists>evs. mergeCollection cfg collectionKey collection s = (Resolved, [], s\<lparr>trace := trace s @ evs\<rparr>)
               \<and> list_all isLog evs)"
  proof
    assume h: "\<not> isValidNonEmptyCollectionForMerge collection
      \<or> \<not> doAllCollectionItemsBelongToSameParent collectionKey (map fst (objectEntries collection))"
    show "\<exists>evs. mergeCollection cfg collectionKey collection s = (Resolved, [], s\<lparr>trace := trace s @ evs\<rparr>)
               \<and> list_all isLog evs"
    proof (cases "isValidNonEmptyCollectionForMerge collection")
      case False
      then have "mergeCollection cfg collectionKey collection s
          = (Resolved, [], s\<lparr>trace := trace s @ [LogInfo ''mergeCollection'']\<rparr>)
          \<and> list_all isLog [LogInfo ''mergeCollection'']"
        by (simp add: mergeCollection_def emit_def)
      then show ?thesis by blast
    next
      case True
      then have "mergeCollection cfg collectionKey collection s = (Resolved, [], s\<lparr>trace := trace s @ []\<rparr>)
          \<and> list_all isLog []"
        using h by (simp add: mergeCollection_def)
      then show ?thesis by blast
    qed
  qed
  have b: "\<not> doAllCollectionItemsBelongToSameParent collectionKey (map fst (objectEntries collection))
    \<longrightarrow> (\<exists>evs. setCollection cfg collectionKey collection s = Inr (Resolved, [], s\<lparr>trace := trace s @ evs\<rparr>)
               \<and> list_all isLog evs)"
  proof
    assume h: "\<not> doAllCollectionItemsBelongToSameParent collectionKey (map fst (objectEntries collection))"
    then have "setCollection cfg collectionKey collection s
          = Inr (Resolved, [], s\<lparr>trace := trace s @ [LogAlert ''setCollection'' collectionKey]\<rparr>)
          \<and> list_all isLog [LogAlert ''setCollection'' collectionKey]"
      using not_belong_not_nullish[OF h] by (simp add: setCollection_def emit_def)
    then show "\<exists>evs. setCollection cfg collectionKey collection s = Inr (Resolved, [], s\<lparr>trace := trace s @ evs\<rparr>)
               \<and> list_all isLog evs"
      by blast
  qed
  show ?thesis using a b by (rule conjI)
qed

theorem collection_calls_rejected_witness:
  "\<not> isValidNonEmptyCollectionForMerge (JObj [])
   \<and> mergeCollection plainConfig ''r_'' (JObj []) (storeOf [(''r_1'', JNum 1)])
       = (Resolved, [], (storeOf [(''r_1'', JNum 1)])\<lparr>trace := [LogInfo ''mergeCollection'']\<rparr>)
   \<and> \<not> doAllCollectionItemsBelongToSameParent ''r_'' (map fst (objectEntries (JObj [(''r_1'', JNum 2), (''x_1'', JNum 3)])))
   \<and> mergeCollection plainConfig ''r_'' (JObj [(''r_1'', JNum 2), (''x_1'', JNum 3)]) (storeOf [(''r_1'', JNum 1)])
       = (Resolved, [], storeOf [(''r_1'', JNum 1)])
   \<and> setCollection plainConfig ''r_'' (JObj [(''r_1'', JNum 2), (''x_1'', JNum 3)]) (storeOf [(''r_1'', JNum 1)])
       = Inr (Resolved, [], (storeOf [(''r_1'', JNum 1)])\<lparr>trace := [LogAlert ''setCollection'' ''r_'']\<rparr>)"
proof -
  let ?s = "storeOf [(''r_1'', JNum 1)]"
  let ?c = "JObj [(''r_1'', JNum 2), (''x_1'', JNum 3)]"
  have h1: "\<not> isValidNonEmptyCollectionForMerge (JObj [])"
    by (simp add: isValidNonEmptyCollectionForMerge_def)
  have h2: "\<not> doAllCollectionItemsBelongToSameParent ''r_'' (map fst (objectEntries ?c))"
    by (simp add: doAllCollectionItemsBelongToSameParent_def isCollectionMemberKey_def)
  have t: "trace ?s = []" by (simp add: scenario_defs)
  obtain evs1 where e1: "mergeCollection plainConfig ''r_'' (JObj []) ?s = (Resolved, [], ?s\<lparr>trace := trace ?s @ evs1\<rparr>)"
    using collection_calls_rejected[of "JObj []" "''r_''" plainConfig ?s] h1 by blast
  obtain evs2 where e2: "mergeCollection plainConfig ''r_'' ?c ?s = (Resolved, [], ?s\<lparr>trace := trace ?s @ evs2\<rparr>)"
    using collection_calls_rejected[of ?c "''r_''" plainConfig ?s] h2 by blast
  obtain evs3 where e3: "setCollection plainConfig ''r_'' ?c ?s = Inr (Resolved, [], ?s\<lparr>trace := trace ?s @ evs3\<rparr>)"
    using collection_calls_rejected[of ?c "''r_''" plainConfig ?s] h2 by blast
  have v1: "mergeCollection plainConfig ''r_'' (JObj []) ?s = (Resolved, [], ?s\<lparr>trace := [LogInfo ''mergeCollection'']\<rparr>)"
    using h1 by (simp add: mergeCollection_def emit_def t)
  have v2: "mergeCollection plainConfig ''r_'' ?c ?s = (Resolved, [], ?s)"
    using h2 by (simp add: mergeCollection_def isValidNonEmptyCollectionForMerge_def)
  have v3: "setCollection plainConfig ''r_'' ?c ?s = Inr (Resolved, [], ?s\<lparr>trace := [LogAlert ''setCollection'' ''r_'']\<rparr>)"
    using h2 by (simp add: setCollection_def nullish_def emit_def t)
  show ?thesis using h1 h2 v1 v2 v3 e1 e2 e3 by blast
qed

lemma incompatible_defined:
  "\<not> isCompatible v ex \<Longrightarrow> v \<noteq> JUndefined \<and> v \<noteq> JNull \<and> ex \<noteq> JUndefined \<and> ex \<noteq> JNull"
  by (auto simp: isCompatible_def nullish_def)

lemma delete_absent: "map_of al k = None \<Longrightarrow> AList.delete k al = al"
  by (simp add: map_of_eq_None_iff)

lemma set_op_incompatible:
  assumes "\<not> isCompatible (if isSkippable cfg k then JNull else v) (cache_get s k)"
  shows "set_op cfg k v s
       = (Resolved, emit (LogAlert ''set'' k) (s\<lparr>mergeQueue := AList.delete k (mergeQueue s)\<rparr>))"
proof -
  have d: "\<not> hasPendingMergeForKey s k \<Longrightarrow> s\<lparr>mergeQueue := AList.delete k (mergeQueue s)\<rparr> = s"
    by (simp add: hasPendingMergeForKey_def delete_absent)
  show ?thesis
    using assms incompatible_defined[OF assms] d
    by (cases "hasPendingMergeForKey s k") (simp_all add: set_op_def Let_def)
qed

lemma merge_write_cong:
  assumes "cache s = cache s'" "storage s = storage s'"
  shows "fst (merge_write k ex b d s) = fst (merge_write k ex b d s')
       \<and> cache (snd (merge_write k ex b d s)) = cache (snd (merge_write k ex b d s'))
       \<and> storage (snd (merge_write k ex b d s)) = storage (snd (merge_write k ex b d s'))"
  using assms by (simp add: merge_write_def removeNullValues_def Let_def hasValueChanged_def)

lemma merge_write_extends: "set (trace s) \<subseteq> set (trace (snd (merge_write k ex b d s)))"
  using merge_write_trace[of k ex b d s k] by auto

lemma logIncompatible_alert:
  "d \<in> set q \<Longrightarrow> \<not> isCompatible d ex \<Longrightarrow> LogAlert m k \<in> set (trace (logIncompatible m k ex q s))"
proof (induction q arbitrary: s)
  case Nil
  then show ?case by simp
next
  case (Cons c q)
  let ?s1 = "if isCompatible c ex then s else emit (LogAlert m k) s"
  have step: "logIncompatible m k ex (c # q) s = logIncompatible m k ex q ?s1"
    by (simp add: logIncompatible_def)
  show ?case
  proof (cases "d \<in> set q")
    case True
    then show ?thesis using Cons.IH[OF True Cons.prems(2), of ?s1] step by simp
  next
    case False
    then have "c = d" using Cons.prems(1) by simp
    then have in1: "LogAlert m k \<in> set (trace ?s1)" using Cons.prems(2) by simp
    obtain evs where e: "logIncompatible m k ex q ?s1 = ?s1\<lparr>trace := trace ?s1 @ evs\<rparr>"
      using logIncompatible_trace[of m k ex q ?s1] by blast
    have "trace (logIncompatible m k ex (c # q) s) = trace ?s1 @ evs"
      unfolding step e by simp
    then show ?thesis using in1 by simp
  qed
qed

lemma filter_compatible_null: "JNull \<in> set (filter (\<lambda>c. isCompatible c ex) q) \<longleftrightarrow> JNull \<in> set q"
  by (auto simp: isCompatible_def nullish_def)

lemma logIncompatible_none:
  "list_all (\<lambda>c. isCompatible c ex) q \<Longrightarrow> logIncompatible m k ex q s = s"
  by (induction q arbitrary: s) (simp_all add: logIncompatible_def)

lemma merge_fold_drops_incompatible:
  assumes "map_of (mergeQueue s) k = Some q"
  shows "fst (merge_fold k ex s)
           = fst (merge_fold k ex (s\<lparr>mergeQueue := AList.update k (filter (\<lambda>c. isCompatible c ex) q) (mergeQueue s)\<rparr>))
       \<and> cache (snd (merge_fold k ex s))
           = cache (snd (merge_fold k ex (s\<lparr>mergeQueue := AList.update k (filter (\<lambda>c. isCompatible c ex) q) (mergeQueue s)\<rparr>)))
       \<and> storage (snd (merge_fold k ex s))
           = storage (snd (merge_fold k ex (s\<lparr>mergeQueue := AList.update k (filter (\<lambda>c. isCompatible c ex) q) (mergeQueue s)\<rparr>)))"
proof -
  let ?v = "filter (\<lambda>c. isCompatible c ex) q"
  let ?s' = "s\<lparr>mergeQueue := AList.update k ?v (mergeQueue s)\<rparr>"
  have q': "map_of (mergeQueue ?s') k = Some ?v" by (simp add: update_conv')
  have vv: "filter (\<lambda>c. isCompatible c ex) ?v = ?v" by simp
  have all: "list_all (\<lambda>c. isCompatible c ex) ?v" by (simp add: list_all_iff)
  have l': "logIncompatible ''merge'' k ex ?v ?s' = ?s'" by (rule logIncompatible_none[OF all])
  obtain evs where l: "logIncompatible ''merge'' k ex q s = s\<lparr>trace := trace s @ evs\<rparr>"
    using logIncompatible_trace[of "''merge''" k ex q s] by blast
  show ?thesis
  proof (cases "?v = []")
    case True
    have "merge_fold k ex s = (Resolved, s\<lparr>trace := trace s @ evs\<rparr>)"
      using assms True l by (simp add: merge_fold_def)
    moreover have "merge_fold k ex ?s' = (Resolved, ?s')"
      using q' True l' by (simp add: merge_fold_def)
    ultimately show ?thesis by simp
  next
    case False
    let ?b = "applyMerge JUndefined ?v False"
    let ?s2 = "(s\<lparr>trace := trace s @ evs\<rparr>)\<lparr>mergeQueue := AList.delete k (mergeQueue s),
                  mergeQueuePromise := removeAll k (mergeQueuePromise s)\<rparr>"
    let ?s2' = "?s'\<lparr>mergeQueue := AList.delete k (mergeQueue ?s'), mergeQueuePromise := removeAll k (mergeQueuePromise ?s')\<rparr>"
    have ssv: "shouldSetValue ex ?v = shouldSetValue ex q"
      by (simp only: shouldSetValue_def filter_compatible_null)
    have m: "merge_fold k ex s = merge_write k ex (shouldSetValue ex q) ?b ?s2"
      using assms False l by (simp add: merge_fold_def Let_def)
    have m': "merge_fold k ex ?s' = merge_write k ex (shouldSetValue ex q) ?b ?s2'"
      using q' False l' vv ssv by (simp add: merge_fold_def Let_def)
    have "cache ?s2 = cache ?s2'" "storage ?s2 = storage ?s2'" by simp_all
    then show ?thesis unfolding m m' by (rule merge_write_cong)
  qed
qed

lemma merge_fold_alert:
  assumes "map_of (mergeQueue s) k = Some q" "d \<in> set q" "\<not> isCompatible d ex"
  shows "LogAlert ''merge'' k \<in> set (trace (snd (merge_fold k ex s)))"
proof -
  let ?l = "logIncompatible ''merge'' k ex q s"
  have a: "LogAlert ''merge'' k \<in> set (trace ?l)"
    by (rule logIncompatible_alert[OF assms(2,3)])
  show ?thesis
  proof (cases "filter (\<lambda>c. isCompatible c ex) q = []")
    case True
    then show ?thesis using assms(1) a by (simp add: merge_fold_def)
  next
    case False
    let ?s2 = "?l\<lparr>mergeQueue := AList.delete k (mergeQueue ?l), mergeQueuePromise := removeAll k (mergeQueuePromise ?l)\<rparr>"
    have "merge_fold k ex s = merge_write k ex (shouldSetValue ex q)
            (applyMerge JUndefined (filter (\<lambda>c. isCompatible c ex) q) False) ?s2"
      using assms(1) False by (simp add: merge_fold_def Let_def)
    moreover have "LogAlert ''merge'' k \<in> set (trace ?s2)" using a by simp
    ultimately show ?thesis using merge_write_extends by fastforce
  qed
qed

lemma merge_fold_all_incompatible:
  assumes "map_of (mergeQueue s) k = Some q" "filter (\<lambda>c. isCompatible c ex) q = []"
  shows "fst (merge_fold k ex s) = Resolved
       \<and> cache (snd (merge_fold k ex s)) = cache s \<and> storage (snd (merge_fold k ex s)) = storage s"
proof -
  obtain evs where l: "logIncompatible ''merge'' k ex q s = s\<lparr>trace := trace s @ evs\<rparr>"
    using logIncompatible_trace[of "''merge''" k ex q s] by blast
  show ?thesis using assms l by (simp add: merge_fold_def)
qed

lemma cache_get_frames [simp]:
  "cache_get (remove k' s) k = (if k = k' then JUndefined else cache_get s k)"
  "cache_get (cache_set k' v s) k = (if k = k' then v else cache_get s k)"
  "cache_get (Storage_multiSet ps s) k = cache_get s k"
  "cache_get (Storage_multiMerge ps s) k = cache_get s k"
  "cache_get (scheduleNotifyCollectionSubscribers ck m p s) k = cache_get s k"
  by (simp_all add: cache_get_def)

lemma storage_get_frames [simp]:
  "storage_get (remove k' s) k = (if k = k' then JUndefined else storage_get s k)"
  "storage_get (cache_set k' v s) k = storage_get s k"
  "storage_get (emit e s) k = storage_get s k"
  "storage_get (scheduleNotifyCollectionSubscribers ck m p s) k = storage_get s k"
  by (simp_all add: storage_get_def)

lemma remove_nulls_frame:
  assumes "lookup rc k \<noteq> JNull"
  shows "cache_get (foldl (\<lambda>st k'. if lookup rc k' = JNull then remove k' st else st) s ks) k = cache_get s k
       \<and> storage_get (foldl (\<lambda>st k'. if lookup rc k' = JNull then remove k' st else st) s ks) k = storage_get s k"
  using assms by (induction ks arbitrary: s) auto

lemma cached_collection_lookup:
  "lookup (foldl (\<lambda>collection k'. if cache_get s k' = JUndefined then collection
                                    else AList.update k' (cache_get s k') collection) c0 ks) k
     = (if k \<in> set ks \<and> cache_get s k \<noteq> JUndefined then cache_get s k else lookup c0 k)"
  by (induction ks arbitrary: c0) auto

lemma alerts_frame:
  "cache (foldl (\<lambda>st k'. if ok k' then st else emit (LogAlert m k') st) s ks) = cache s
   \<and> storage (foldl (\<lambda>st k'. if ok k' then st else emit (LogAlert m k') st) s ks) = storage s
   \<and> set (trace s) \<subseteq> set (trace (foldl (\<lambda>st k'. if ok k' then st else emit (LogAlert m k') st) s ks))"
  by (induction ks arbitrary: s) (simp, force)

lemma alerts_logged:
  "k \<in> set ks \<Longrightarrow> \<not> ok k \<Longrightarrow>
     LogAlert m k \<in> set (trace (foldl (\<lambda>st k'. if ok k' then st else emit (LogAlert m k') st) s ks))"
proof (induction ks arbitrary: s)
  case Nil
  then show ?case by simp
next
  case (Cons x ks)
  let ?s1 = "if ok x then s else emit (LogAlert m x) s"
  show ?case
  proof (cases "k \<in> set ks")
    case True
    then show ?thesis using Cons.IH[OF True Cons.prems(2), of ?s1] by simp
  next
    case False
    then have "x = k" using Cons.prems(1) by simp
    then have "LogAlert m k \<in> set (trace ?s1)" using Cons.prems(2) by simp
    then show ?thesis using alerts_frame[where s = ?s1 and ks = ks and ok = ok and m = m] by auto
  qed
qed

lemma kept_fold_keys:
  "map_of (foldl (\<lambda>obj k'. if ok k' then AList.update k' (g k') obj else obj) obj0 ks) k
     = (if k \<in> set ks \<and> ok k then Some (g k) else map_of obj0 k)"
  by (induction ks arbitrary: obj0) (auto simp: update_conv')

lemma prepare_keys: "fst ` set (prepareKeyValuePairsForStorage data b) \<subseteq> fst ` set data"
  by (force simp: prepareKeyValuePairsForStorage_def)

lemma get_frame:
  "storage (snd (get k' s)) = storage s"
  "set (trace s) \<subseteq> set (trace (snd (get k' s)))"
  "cache_get s k \<noteq> JUndefined \<Longrightarrow> cache_get (snd (get k' s)) k = cache_get s k"
  by (auto simp: get_def cache_get_def lookup_def cache_set_def emit_def update_conv' split: option.splits)

lemma gets_frame:
  "storage (snd (foldl (\<lambda>(obj, st) k'. case get k' st of (v, st') \<Rightarrow> (AList.update k' v obj, st')) (obj0, s) ks)) = storage s
   \<and> set (trace s) \<subseteq> set (trace (snd (foldl (\<lambda>(obj, st) k'. case get k' st of (v, st') \<Rightarrow> (AList.update k' v obj, st')) (obj0, s) ks)))
   \<and> (cache_get s k \<noteq> JUndefined \<longrightarrow>
        cache_get (snd (foldl (\<lambda>(obj, st) k'. case get k' st of (v, st') \<Rightarrow> (AList.update k' v obj, st')) (obj0, s) ks)) k
          = cache_get s k)"
proof (induction ks arbitrary: obj0 s)
  case Nil
  show ?case by simp
next
  case (Cons x ks)
  obtain v s1 where g: "get x s = (v, s1)" by (cases "get x s")
  have f: "storage s1 = storage s" "set (trace s) \<subseteq> set (trace s1)"
    "cache_get s k \<noteq> JUndefined \<Longrightarrow> cache_get s1 k = cache_get s k"
    using get_frame(1)[where k' = x and s = s] get_frame(2)[where k' = x and s = s]
      get_frame(3)[where k' = x and s = s and k = k] g by simp_all
  show ?case
    using Cons.IH[of "AList.update x v obj0" s1] g f by auto
qed

lemma multiMerge_frame:
  "k \<notin> fst ` set pairs \<Longrightarrow>
     lookup (foldl (\<lambda>st (k', v). storage_put k' (fastMerge True (lookup st k') v) st) st pairs) k = lookup st k"
  by (induction pairs arbitrary: st) (auto simp: storage_put_def)

lemma multiSet_frame:
  "k \<notin> fst ` set pairs \<Longrightarrow> lookup (foldl (\<lambda>st (k', v). storage_put k' v st) st pairs) k = lookup st k"
  by (induction pairs arbitrary: st) (auto simp: storage_put_def)

lemma cache_merge_frame:
  "storage (cache_merge data s) = storage s"
  "trace (cache_merge data s) = trace s"
  "k \<notin> fst ` set data \<Longrightarrow> cache_get (cache_merge data s) k = cache_get s k"
  unfolding cache_merge_def by (induction data arbitrary: s) auto

lemma spread_keys:
  "fst ` set (foldl (\<lambda>obj (k', v). AList.update k' v obj) obj0 xs) = fst ` set obj0 \<union> fst ` set xs"
proof (induction xs arbitrary: obj0)
  case Nil
  show ?case by simp
next
  case (Cons x xs)
  obtain k' v where x: "x = (k', v)" by (cases x)
  show ?case using Cons.IH[of "AList.update k' v obj0"] x by (simp add: dom_update)
qed

lemma absent_key: "map_of al k = None \<Longrightarrow> k \<notin> fst ` set al"
  by (simp add: map_of_eq_None_iff)

lemma skipped_fold_keys:
  "map_of (foldl (\<lambda>obj k'. if bad k' then obj else AList.update k' (g k') obj) obj0 ks) k
     = (if k \<in> set ks \<and> \<not> bad k then Some (g k) else map_of obj0 k)"
  by (induction ks arbitrary: obj0) (auto simp: update_conv')

lemma cached_key: "cache_get s k \<noteq> JUndefined \<Longrightarrow> k \<in> set (getAllKeys s)"
  using lookup_absent[of k "cache s"] by (auto simp: set_getAllKeys cache_get_def)

lemma mergeCollection_body_incompatible:
  assumes kin: "k \<in> fst ` set rc"
      and inc: "\<not> isCompatible (lookup rc k) (cache_get s k)"
      and per: "k \<in> set persistedKeys"
  shows "cache_get (mergeCollection_body ck rc persistedKeys s) k = cache_get s k
       \<and> storage_get (mergeCollection_body ck rc persistedKeys s) k = storage_get s k
       \<and> LogAlert ''mergeCollection'' k \<in> set (trace (mergeCollection_body ck rc persistedKeys s))"
proof -
  define s1 where "s1 = foldl (\<lambda>st k. if lookup rc k = JNull then remove k st else st) s (map fst rc)"
  define keys where "keys = filter (\<lambda>k. lookup rc k \<noteq> JNull) (map fst rc)"
  define existingKeys where "existingKeys = filter (\<lambda>k. k \<in> set persistedKeys) keys"
  define cached where "cached = getCachedCollection s1 ck (Some existingKeys)"
  define compatible where "compatible = (\<lambda>k. isCompatible (lookup rc k) (lookup cached k))"
  define s2 where "s2 = foldl (\<lambda>st k. if compatible k then st else emit (LogAlert ''mergeCollection'' k) st) s1 existingKeys"
  define existingKeyCollection where
    "existingKeyCollection = foldl (\<lambda>obj k. if compatible k then AList.update k (lookup rc k) obj else obj) [] existingKeys"
  define newCollection where
    "newCollection = foldl (\<lambda>obj k. if k \<in> set persistedKeys then obj else AList.update k (lookup rc k) obj) [] keys"
  define pairsE where "pairsE = prepareKeyValuePairsForStorage existingKeyCollection False"
  define pairsN where "pairsN = prepareKeyValuePairsForStorage newCollection True"
  define previous where
    "previous = foldl (\<lambda>(obj, st) k. case get k st of (v, st') \<Rightarrow> (AList.update k v obj, st')) ([], s2) existingKeys"
  define s4 where "s4 = (if pairsE \<noteq> [] then Storage_multiMerge pairsE (snd previous) else snd previous)"
  define s5 where "s5 = (if pairsN \<noteq> [] then Storage_multiSet pairsN s4 else s4)"
  define final where "final = foldl (\<lambda>obj (k, v). AList.update k v obj) existingKeyCollection newCollection"
  have body: "mergeCollection_body ck rc persistedKeys s
      = scheduleNotifyCollectionSubscribers ck final (JObj (fst previous)) (cache_merge final s5)"
    unfolding mergeCollection_body_def Let_def final_def s5_def s4_def previous_def pairsN_def pairsE_def
      newCollection_def existingKeyCollection_def s2_def compatible_def cached_def existingKeys_def
      keys_def s1_def
    by (rule refl)
  have d: "lookup rc k \<noteq> JNull" "cache_get s k \<noteq> JUndefined"
    using incompatible_defined[OF inc] by simp_all
  have c1: "cache_get s1 k = cache_get s k" "storage_get s1 k = storage_get s k"
    unfolding s1_def using remove_nulls_frame[OF d(1)] by simp_all
  have ke: "k \<in> set existingKeys"
    unfolding existingKeys_def keys_def using kin d(1) per by simp
  have cl: "lookup cached k = cache_get s1 k"
    unfolding cached_def getCachedCollection_def using ke c1(1) d(2)
    by (simp add: cached_collection_lookup)
  have nc: "\<not> compatible k"
    unfolding compatible_def cl c1(1) by (rule inc)
  have s2: "cache s2 = cache s1" "storage s2 = storage s1" "LogAlert ''mergeCollection'' k \<in> set (trace s2)"
    unfolding s2_def using alerts_frame[where ok = compatible and s = s1 and ks = existingKeys]
      alerts_logged[where ok = compatible and k = k and ks = existingKeys and s = s1 and m = "''mergeCollection''"]
      ke nc by simp_all
  have ne: "k \<notin> fst ` set existingKeyCollection"
    unfolding existingKeyCollection_def using nc by (intro absent_key) (simp add: kept_fold_keys)
  have nn: "k \<notin> fst ` set newCollection"
    unfolding newCollection_def using per by (intro absent_key) (simp add: skipped_fold_keys)
  have pe: "k \<notin> fst ` set pairsE" using ne prepare_keys unfolding pairsE_def by blast
  have pn: "k \<notin> fst ` set pairsN" using nn prepare_keys unfolding pairsN_def by blast
  have c2: "cache_get s2 k \<noteq> JUndefined" "cache_get s2 k = cache_get s k" "storage_get s2 k = storage_get s k"
    using s2(1,2) c1 d(2) by (simp_all add: cache_get_def storage_get_def)
  have s3: "storage (snd previous) = storage s2" "set (trace s2) \<subseteq> set (trace (snd previous))"
    "cache_get (snd previous) k = cache_get s2 k"
    unfolding previous_def using gets_frame[where s = s2 and ks = existingKeys and k = k] c2(1) by simp_all
  have s4: "cache_get s4 k = cache_get s k" "storage_get s4 k = storage_get s k"
    "LogAlert ''mergeCollection'' k \<in> set (trace s4)"
    unfolding s4_def using s3 s2(3) c2 pe
    by (auto simp: storage_get_def multiMerge_frame)
  have s5: "cache_get s5 k = cache_get s k" "storage_get s5 k = storage_get s k"
    "LogAlert ''mergeCollection'' k \<in> set (trace s5)"
    unfolding s5_def using s4 pn
    by (auto simp: storage_get_def multiSet_frame)
  have nf: "k \<notin> fst ` set final"
    unfolding final_def using ne nn by (simp add: spread_keys)
  show ?thesis
    unfolding body using s5 nf by (simp add: cache_merge_frame storage_get_def)
qed

lemma mergeCollection_incompatible:
  assumes "isValidNonEmptyCollectionForMerge collection"
      and "doAllCollectionItemsBelongToSameParent collectionKey (map fst (objectEntries collection))"
      and "k \<in> fst ` set (coerceSkippable cfg (isSkippableOf cfg collectionKey) (objectEntries collection))"
      and "\<not> isCompatible (lookup (coerceSkippable cfg (isSkippableOf cfg collectionKey) (objectEntries collection)) k)
              (cache_get s k)"
  shows "fst (mergeCollection cfg collectionKey collection s) = TaskPromise
       \<and> cache_get (run_tasks cfg (fst (snd (mergeCollection cfg collectionKey collection s))) s) k = cache_get s k
       \<and> storage_get (run_tasks cfg (fst (snd (mergeCollection cfg collectionKey collection s))) s) k = storage_get s k
       \<and> LogAlert ''mergeCollection'' k
            \<in> set (trace (run_tasks cfg (fst (snd (mergeCollection cfg collectionKey collection s))) s))"
proof -
  let ?rc = "coerceSkippable cfg (isSkippableOf cfg collectionKey) (objectEntries collection)"
  have m: "mergeCollection cfg collectionKey collection s
      = (TaskPromise, [MergeCollectionBody collectionKey ?rc (getAllKeys s)], s)"
    using assms(1,2) by (simp add: mergeCollection_def Let_def)
  have per: "k \<in> set (getAllKeys s)"
    using incompatible_defined[OF assms(4)] by (simp add: cached_key)
  have r: "run_tasks cfg (fst (snd (mergeCollection cfg collectionKey collection s))) s
      = mergeCollection_body collectionKey ?rc (getAllKeys s) s"
    unfolding m by (simp add: run_tasks_def run_task_def)
  show ?thesis
    unfolding r using mergeCollection_body_incompatible[OF assms(3,4) per, of collectionKey] m by simp
qed

text \<open>
  C7. \<open>set\<close>: when the value to write (\<open>null\<close> for a skippable member) is incompatible
  with the cached value, the call returns a resolved promise and changes nothing but the
  trace, which gains one alert, and the key's merge queue entry, which \<open>set\<close> always drops.
  \<open>merge\<close>: a queued change that is incompatible with the value read is logged at alert level
  by the fold, and the promise, the cache and the storage that the fold leaves are those it
  leaves for the queue without its incompatible changes; when no compatible change remains
  the promise is resolved and cache and storage are as they were. \<open>mergeCollection\<close>: a
  member whose value is incompatible with its cached value is logged at alert level and keeps
  its cached and its stored value, the call returning a promise without throwing.
\<close>

theorem incompatible_update_dropped:
  "(\<not> isCompatible (if isSkippable cfg k then JNull else v) (cache_get s k) \<longrightarrow>
      set_op cfg k v s
        = (Resolved, emit (LogAlert ''set'' k) (s\<lparr>mergeQueue := AList.delete k (mergeQueue s)\<rparr>)))
   \<and> (map_of (mergeQueue s) k = Some queue \<and> d \<in> set queue \<and> \<not> isCompatible d existingValue \<longrightarrow>
      LogAlert ''merge'' k \<in> set (trace (snd (merge_fold k existingValue s)))
      \<and> fst (merge_fold k existingValue s)
          = fst (merge_fold k existingValue
                   (s\<lparr>mergeQueue := AList.update k (filter (\<lambda>c. isCompatible c existingValue) queue) (mergeQueue s)\<rparr>))
      \<and> cache (snd (merge_fold k existingValue s))
          = cache (snd (merge_fold k existingValue
                   (s\<lparr>mergeQueue := AList.update k (filter (\<lambda>c. isCompatible c existingValue) queue) (mergeQueue s)\<rparr>)))
      \<and> storage (snd (merge_fold k existingValue s))
          = storage (snd (merge_fold k existingValue
                   (s\<lparr>mergeQueue := AList.update k (filter (\<lambda>c. isCompatible c existingValue) queue) (mergeQueue s)\<rparr>)))
      \<and> (filter (\<lambda>c. isCompatible c existingValue) queue = [] \<longrightarrow>
            fst (merge_fold k existingValue s) = Resolved
            \<and> cache (snd (merge_fold k existingValue s)) = cache s
            \<and> storage (snd (merge_fold k existingValue s)) = storage s))
   \<and> (isValidNonEmptyCollectionForMerge collection
      \<and> doAllCollectionItemsBelongToSameParent collectionKey (map fst (objectEntries collection))
      \<and> k \<in> fst ` set (coerceSkippable cfg (isSkippableOf cfg collectionKey) (objectEntries collection))
      \<and> \<not> isCompatible (lookup (coerceSkippable cfg (isSkippableOf cfg collectionKey) (objectEntries collection)) k)
              (cache_get s k) \<longrightarrow>
      fst (mergeCollection cfg collectionKey collection s) = TaskPromise
      \<and> cache_get (run_tasks cfg (fst (snd (mergeCollection cfg collectionKey collection s))) s) k = cache_get s k
      \<and> storage_get (run_tasks cfg (fst (snd (mergeCollection cfg collectionKey collection s))) s) k = storage_get s k
      \<and> LogAlert ''mergeCollection'' k
           \<in> set (trace (run_tasks cfg (fst (snd (mergeCollection cfg collectionKey collection s))) s)))"
  using set_op_incompatible[of cfg k v s]
    merge_fold_alert[of s k queue d existingValue]
    merge_fold_drops_incompatible[of s k queue existingValue]
    merge_fold_all_incompatible[of s k queue existingValue]
    mergeCollection_incompatible[of collection collectionKey k cfg s]
  by blast

theorem incompatible_update_dropped_witness:
  "\<not> isCompatible (if isSkippable plainConfig ''k'' then JNull else JObj [(''z'', JNum 9)])
        (cache_get (storeOf [(''k'', JArr [JNum 1])]) ''k'')
   \<and> set_op plainConfig ''k'' (JObj [(''z'', JNum 9)]) (storeOf [(''k'', JArr [JNum 1])])
       = (Resolved, (storeOf [(''k'', JArr [JNum 1])])\<lparr>trace := [LogAlert ''set'' ''k'']\<rparr>)
   \<and> map_of (mergeQueue ((storeOf [(''k'', JArr [JNum 1])])\<lparr>mergeQueue := [(''k'', [JObj [(''z'', JNum 9)]])]\<rparr>)) ''k''
       = Some [JObj [(''z'', JNum 9)]]
   \<and> merge_fold ''k'' (JArr [JNum 1]) ((storeOf [(''k'', JArr [JNum 1])])\<lparr>mergeQueue := [(''k'', [JObj [(''z'', JNum 9)]])]\<rparr>)
       = (Resolved, (storeOf [(''k'', JArr [JNum 1])])\<lparr>mergeQueue := [(''k'', [JObj [(''z'', JNum 9)]])],
                                                         trace := [LogAlert ''merge'' ''k'']\<rparr>)
   \<and> cache_get (run_tasks plainConfig
         (fst (snd (mergeCollection plainConfig ''r_'' (JObj [(''r_1'', JObj [(''z'', JNum 9)])])
                      (storeOf [(''r_1'', JArr [JNum 1])]))))
         (storeOf [(''r_1'', JArr [JNum 1])])) ''r_1'' = JArr [JNum 1]
   \<and> storage_get (run_tasks plainConfig
         (fst (snd (mergeCollection plainConfig ''r_'' (JObj [(''r_1'', JObj [(''z'', JNum 9)])])
                      (storeOf [(''r_1'', JArr [JNum 1])]))))
         (storeOf [(''r_1'', JArr [JNum 1])])) ''r_1'' = JArr [JNum 1]"
proof -
  let ?s = "storeOf [(''k'', JArr [JNum 1])]"
  let ?sq = "?s\<lparr>mergeQueue := [(''k'', [JObj [(''z'', JNum 9)]])]\<rparr>"
  let ?sr = "storeOf [(''r_1'', JArr [JNum 1])]"
  let ?c = "JObj [(''r_1'', JObj [(''z'', JNum 9)])]"
  have h1: "\<not> isCompatible (if isSkippable plainConfig ''k'' then JNull else JObj [(''z'', JNum 9)]) (cache_get ?s ''k'')"
    by (simp add: not_isSkippable_plain isCompatible_def nullish_def cache_get_def lookup_def storeOf_def emptyStore_def)
  have h2: "map_of (mergeQueue ?sq) ''k'' = Some [JObj [(''z'', JNum 9)]]"
    by simp
  have h3: "JObj [(''z'', JNum 9)] \<in> set [JObj [(''z'', JNum 9)]] \<and> \<not> isCompatible (JObj [(''z'', JNum 9)]) (JArr [JNum 1])"
    by (simp add: isCompatible_def nullish_def)
  have h4: "filter (\<lambda>c. isCompatible c (JArr [JNum 1])) [JObj [(''z'', JNum 9)]] = []"
    by (simp add: isCompatible_def nullish_def)
  have rc: "coerceSkippable plainConfig (isSkippableOf plainConfig ''r_'') (objectEntries ?c) = [(''r_1'', JObj [(''z'', JNum 9)])]"
    by (simp add: coerceSkippable_def plainConfig_def)
  have h5: "isValidNonEmptyCollectionForMerge ?c
      \<and> doAllCollectionItemsBelongToSameParent ''r_'' (map fst (objectEntries ?c))
      \<and> ''r_1'' \<in> fst ` set (coerceSkippable plainConfig (isSkippableOf plainConfig ''r_'') (objectEntries ?c))
      \<and> \<not> isCompatible (lookup (coerceSkippable plainConfig (isSkippableOf plainConfig ''r_'') (objectEntries ?c)) ''r_1'')
              (cache_get ?sr ''r_1'')"
    unfolding rc
    by (simp add: isValidNonEmptyCollectionForMerge_def doAllCollectionItemsBelongToSameParent_def
          isCollectionMemberKey_def isCompatible_def nullish_def cache_get_def lookup_def scenario_defs)
  have v: "cache_get ?sr ''r_1'' = JArr [JNum 1]" "storage_get ?sr ''r_1'' = JArr [JNum 1]"
    by (simp_all add: cache_get_def storage_get_def lookup_def scenario_defs)
  note t1 = incompatible_update_dropped[of plainConfig "''k''" "JObj [(''z'', JNum 9)]" ?s "[]" JNull JNull JNull "''x''"]
  note t2 = incompatible_update_dropped[of plainConfig "''k''" JNull ?sq "[JObj [(''z'', JNum 9)]]"
               "JObj [(''z'', JNum 9)]" "JArr [JNum 1]" JNull "''x''"]
  note t3 = incompatible_update_dropped[of plainConfig "''r_1''" JNull ?sr "[]" JNull JNull ?c "''r_''"]
  have p1: "set_op plainConfig ''k'' (JObj [(''z'', JNum 9)]) ?s = (Resolved, ?s\<lparr>trace := [LogAlert ''set'' ''k'']\<rparr>)"
    using t1 h1 by (simp add: emit_def storeOf_def emptyStore_def)
  have p2: "fst (merge_fold ''k'' (JArr [JNum 1]) ?sq) = Resolved"
    using t2 h2 h3 h4 by blast
  have p2': "merge_fold ''k'' (JArr [JNum 1]) ?sq
       = (Resolved, ?s\<lparr>mergeQueue := [(''k'', [JObj [(''z'', JNum 9)]])], trace := [LogAlert ''merge'' ''k'']\<rparr>)"
    using p2 by (simp add: merge_fold_def logIncompatible_def isCompatible_def nullish_def emit_def scenario_defs)
  have p3: "cache_get (run_tasks plainConfig (fst (snd (mergeCollection plainConfig ''r_'' ?c ?sr))) ?sr) ''r_1'' = JArr [JNum 1]"
    and p4: "storage_get (run_tasks plainConfig (fst (snd (mergeCollection plainConfig ''r_'' ?c ?sr))) ?sr) ''r_1'' = JArr [JNum 1]"
    using t3 h5 v by simp_all
  show ?thesis using h1 h2 p1 p2' p3 p4 by blast
qed

end
